theory Spec2Isabelle
  imports Complex_Main "HOL-Library.Word"
begin

section \<open>The C++ standard library, as far as Main.cpp uses it\<close>

text \<open>
  \<^verbatim>\<open>size_t\<close> is an unsigned machine integer (64 bits on the usual targets): addition
  wraps. \<^verbatim>\<open>std::string::npos\<close> is its largest value, so \<^verbatim>\<open>npos + 1\<close> is 0.
\<close>

type_synonym size_t = "64 word"

definition npos :: size_t where
  "npos = - 1"

text \<open>
  The exceptions that nothing in Main.cpp catches: \<^verbatim>\<open>std::out_of_range\<close> of the standard
  library, and a \<^verbatim>\<open>cv::Exception\<close>, with its message, that a call of the OpenCV library
  outside the \<^verbatim>\<open>try\<close> block throws.
\<close>

datatype exn = Out_of_range | Cv_exception string

text \<open>
  \<^verbatim>\<open>s.find(c)\<close>: the index of the first occurrence of the character, \<^verbatim>\<open>npos\<close> when there is
  none. The scan carries the index of the character it looks at.
\<close>

fun find_from :: "string \<Rightarrow> char \<Rightarrow> nat \<Rightarrow> size_t" where
  "find_from [] c i = npos"
| "find_from (x # xs) c i = (if x = c then of_nat i else find_from xs c (Suc i))"

definition str_find :: "string \<Rightarrow> char \<Rightarrow> size_t" where
  "str_find s c = find_from s c 0"

text \<open>
  \<^verbatim>\<open>s.substr(pos)\<close>: the characters from \<^verbatim>\<open>pos\<close> to the end; it throws
  \<^verbatim>\<open>std::out_of_range\<close> when \<^verbatim>\<open>pos > s.size()\<close>.
\<close>

definition substr :: "string \<Rightarrow> size_t \<Rightarrow> exn + string" where
  "substr s pos = (if length s < unat pos then Inl Out_of_range else Inr (drop (unat pos) s))"

text \<open>
  \<^verbatim>\<open>v.at(i)\<close> on a \<^verbatim>\<open>std::vector\<close>: the range-checked access. It throws
  \<^verbatim>\<open>std::out_of_range\<close> when \<^verbatim>\<open>i >= v.size()\<close>. Main.cpp passes an \<^verbatim>\<open>int\<close>; its conversion
  to \<^verbatim>\<open>size_t\<close> sends a negative number beyond every vector size.
\<close>

definition vector_at :: "'a list \<Rightarrow> int \<Rightarrow> exn + 'a" where
  "vector_at v i = (if 0 \<le> i \<and> nat i < length v then Inr (v ! nat i) else Inl Out_of_range)"

text \<open>
  An opened \<^verbatim>\<open>std::ifstream\<close>: the characters not yet read, how the data ends (at the end
  of the file, or with a read that fails, as every read of a directory does), and the
  state flags: \<^verbatim>\<open>eofbit\<close>, and \<open>failed\<close> for \<^verbatim>\<open>failbit\<close> or \<^verbatim>\<open>badbit\<close>. \<open>reading\<close> is
  the stream as \<^verbatim>\<open>std::ifstream fp(filename)\<close> opens it.
\<close>

definition line_feed :: char where
  "line_feed = CHR 0x0A"

datatype read_end = End_of_file | Read_error

record ifstream =
  unread :: string
  at_end :: read_end
  eofbit :: bool
  failed :: bool

definition reading :: "string \<Rightarrow> read_end \<Rightarrow> ifstream" where
  "reading cs e = \<lparr>unread = cs, at_end = e, eofbit = False, failed = False\<rparr>"

text \<open>
  The characters up to the next line feed, which is taken from the stream and not
  stored, the characters after it, and whether a line feed was found.
\<close>

fun take_line :: "string \<Rightarrow> string \<times> string \<times> bool" where
  "take_line [] = ([], [], False)"
| "take_line (c # cs) =
     (if c = line_feed then ([], cs, True)
      else (case take_line cs of (name, rest, found) \<Rightarrow> (c # name, rest, found)))"

text \<open>
  \<^verbatim>\<open>std::getline(fp, name)\<close> with an empty \<^verbatim>\<open>name\<close>. On a stream that is not good it reads
  nothing and sets \<^verbatim>\<open>failbit\<close>. Otherwise it takes the characters up to the next line
  feed; when the data ends first, it stores what it has read and sets \<^verbatim>\<open>eofbit\<close> at the
  end of the file (with \<^verbatim>\<open>failbit\<close> when it has read nothing), \<^verbatim>\<open>badbit\<close> and not
  \<^verbatim>\<open>eofbit\<close> at a read that fails. The result is the line and the stream after the call.
\<close>

definition getline :: "ifstream \<Rightarrow> string \<times> ifstream" where
  "getline fp =
     (if eofbit fp \<or> failed fp then ([], fp\<lparr>failed := True\<rparr>)
      else (case take_line (unread fp) of
              (name, rest, found) \<Rightarrow>
                if found then (name, fp\<lparr>unread := rest\<rparr>)
                else (case at_end fp of
                        End_of_file \<Rightarrow>
                          (name, fp\<lparr>unread := [], eofbit := True, failed := (name = [])\<rparr>)
                      | Read_error \<Rightarrow> (name, fp\<lparr>unread := [], failed := True\<rparr>))))"

section \<open>readClassNames\<close>

text \<open>
  The loop of \<^verbatim>\<open>readClassNames\<close> (Main.cpp, lines 46 to 53):
  \<^verbatim>\<open>while (!fp.eof()) { std::string name; std::getline(fp, name);
     if (name.length()) classNames.push_back(name.substr(name.find(' ') + 1)); }\<close>
  The state is the stream and the vector built so far. The loop ends only when
  \<^verbatim>\<open>eofbit\<close> is set: the value is \<open>None\<close> when it never returns.
\<close>

partial_function (option) read_loop ::
  "ifstream \<Rightarrow> string list \<Rightarrow> (exn + string list) option" where
  "read_loop fp classNames =
     (if \<not> eofbit fp then
        (case getline fp of
           (name, fp') \<Rightarrow>
             if length name \<noteq> 0 then
               (case substr name (str_find name CHR '' '' + 1) of
                  Inl e \<Rightarrow> Some (Inl e)
                | Inr s \<Rightarrow> read_loop fp' (classNames @ [s]))
             else read_loop fp' classNames)
      else Some (Inr classNames))"

declare read_loop.simps [code]

section \<open>The process and the OpenCV library\<close>

text \<open>
  What the process writes to a stream is the sequence of the values inserted with
  \<^verbatim>\<open><<\<close>: a string, an \<^verbatim>\<open>int\<close>, a \<^verbatim>\<open>double\<close>, \<^verbatim>\<open>std::endl\<close>. The text of the
  usage message that \<^verbatim>\<open>parser.printMessage()\<close> prints is one item. The numbers of the
  output matrix are of a type \<open>'p\<close> with an order, a product and numerals; their
  rendering as digits is left to the stream.
\<close>

datatype 'p out_item = Str string | Int_item int | Dbl_item 'p | Endl | Usage_message

datatype target = DNN_TARGET_CPU | DNN_TARGET_OPENCL

text \<open>\<^verbatim>\<open>cv::Scalar(a, b, c)\<close> has four components; the fourth is 0.\<close>

datatype scalar = Scalar real real real real

text \<open>The calls that leave the program: to the OpenCV library and to the file system.\<close>

datatype ('img, 'blob) lib_call =
    ReadNetFromCaffe string string
  | SetPreferableTarget target
  | Imread string
  | BlobFromImage 'img real "nat \<times> nat" scalar bool
  | SetInput 'blob string
  | Forward string
  | Open_ifstream string

record ('img, 'blob, 'p) world =
  cout :: "'p out_item list"
  cerr :: "'p out_item list"
  calls :: "('img, 'blob) lib_call list"

text \<open>
  What becomes of a run that does not reach the end of \<^verbatim>\<open>doDnn\<close>: \<^verbatim>\<open>exit(status)\<close>, an
  exception that nothing catches (\<^verbatim>\<open>std::terminate\<close>), or a loop that never returns.
\<close>

datatype ending = Exit int | Uncaught exn | Never_returns

text \<open>The five options of the \<^verbatim>\<open>params\<close> string, as \<^verbatim>\<open>parser.get\<close> returns them.\<close>

record options =
  opt_help :: bool
  opt_proto :: string
  opt_model :: string
  opt_image :: string
  opt_opencl :: bool

definition default_options :: options where
  "default_options =
     \<lparr>opt_help = False, opt_proto = ''bvlc_googlenet.prototxt'',
      opt_model = ''bvlc_googlenet.caffemodel'', opt_image = ''space_shuttle.jpg'',
      opt_opencl = False\<rparr>"

text \<open>
  The library is a parameter: its functions are fields, the network handle is passed to
  them and returned by those that are not \<^verbatim>\<open>const\<close>. \<^verbatim>\<open>readNetFromCaffe\<close> returns the
  network or throws a \<^verbatim>\<open>cv::Exception\<close> with a message (\<open>Inl\<close>); \<open>net_default\<close> is the
  handle that \<^verbatim>\<open>cv::dnn::Net net;\<close> constructs. \<^verbatim>\<open>setInput\<close> and \<^verbatim>\<open>forward\<close> return, or
  throw a \<^verbatim>\<open>cv::Exception\<close> as well: a network without the input "data" or the layer
  "prob", or a compute target that fails during the forward pass (section 4.3 of the
  specification). The remaining calls return: the decoder reports a failure by an empty
  image (section 6 of the specification), and the compute target is not validated when
  it is set (section 4.3). A matrix of results is the list of its elements in row-major order,
  which \<^verbatim>\<open>reshape(1, 1)\<close> keeps. \<open>minMaxLoc_empty\<close> is what \<^verbatim>\<open>cv::minMaxLoc\<close> reports for a
  matrix with no element.
\<close>

record ('net, 'img, 'blob, 'p) lib =
  commandLineParser :: "string list \<Rightarrow> options"
  readNetFromCaffe :: "string \<Rightarrow> string \<Rightarrow> string + 'net"
  net_default :: "'net"
  net_empty :: "'net \<Rightarrow> bool"
  setPreferableTarget :: "'net \<Rightarrow> target \<Rightarrow> 'net"
  imread :: "string \<Rightarrow> 'img"
  img_empty :: "'img \<Rightarrow> bool"
  blobFromImage :: "'img \<Rightarrow> real \<Rightarrow> nat \<times> nat \<Rightarrow> scalar \<Rightarrow> bool \<Rightarrow> 'blob"
  setInput :: "'net \<Rightarrow> 'blob \<Rightarrow> string \<Rightarrow> string + 'net"
  forward :: "'net \<Rightarrow> string \<Rightarrow> string + 'p list \<times> 'net"
  minMaxLoc_empty :: "'p \<times> int"

text \<open>
  The file system: for a file that opens, its characters and how reading them ends;
  \<open>None\<close> for a file that does not open.
\<close>

type_synonym file_system = "string \<Rightarrow> (string \<times> read_end) option"

definition log_call ::
  "('img, 'blob) lib_call \<Rightarrow> ('img, 'blob, 'p) world \<Rightarrow> ('img, 'blob, 'p) world" where
  "log_call c w = w\<lparr>calls := calls w @ [c]\<rparr>"

definition put_cout ::
  "'p out_item list \<Rightarrow> ('img, 'blob, 'p) world \<Rightarrow> ('img, 'blob, 'p) world" where
  "put_cout xs w = w\<lparr>cout := cout w @ xs\<rparr>"

definition put_cerr ::
  "'p out_item list \<Rightarrow> ('img, 'blob, 'p) world \<Rightarrow> ('img, 'blob, 'p) world" where
  "put_cerr xs w = w\<lparr>cerr := cerr w @ xs\<rparr>"

definition readClassNames ::
  "file_system \<Rightarrow> string \<Rightarrow> ('img, 'blob, 'p) world \<Rightarrow>
     (ending + string list) \<times> ('img, 'blob, 'p) world" where
  "readClassNames fs filename w =
     (case fs filename of
        None \<Rightarrow>
          (Inl (Exit (- 1)),
           put_cerr [Str ''File with classes labels not found: '', Str filename, Endl]
             (log_call (Open_ifstream filename) w))
      | Some (cs, e) \<Rightarrow>
          (case read_loop (reading cs e) [] of
             None \<Rightarrow> (Inl Never_returns, log_call (Open_ifstream filename) w)
           | Some (Inl ex) \<Rightarrow> (Inl (Uncaught ex), log_call (Open_ifstream filename) w)
           | Some (Inr classNames) \<Rightarrow> (Inr classNames, log_call (Open_ifstream filename) w)))"

section \<open>doDnn\<close>

text \<open>
  Loading the model (Main.cpp, lines 88 to 105). The handle \<open>net\<close> is default-constructed
  and assigned inside the \<^verbatim>\<open>try\<close> block; when \<^verbatim>\<open>readNetFromCaffe\<close> throws, the assignment
  does not happen, so the handler tests the default-constructed handle.
\<close>

definition load_model ::
  "('net, 'img, 'blob, 'p) lib \<Rightarrow> string \<Rightarrow> string \<Rightarrow> ('img, 'blob, 'p) world \<Rightarrow>
     (ending + 'net) \<times> ('img, 'blob, 'p) world" where
  "load_model L modelTxt modelBin w =
     (let net = net_default L;
          w1 = log_call (ReadNetFromCaffe modelTxt modelBin) w
      in case readNetFromCaffe L modelTxt modelBin of
           Inr net' \<Rightarrow> (Inr net', w1)
         | Inl what \<Rightarrow>
             (let w2 = put_cerr [Str ''Exception: '', Str what, Endl] w1
              in if net_empty L net then
                   (Inl (Exit (- 1)),
                    put_cerr
                      [Str ''Can't load network by using the following files: '', Endl,
                       Str ''prototxt:   '', Str modelTxt, Endl,
                       Str ''caffemodel: '', Str modelBin, Endl,
                       Str ''bvlc_googlenet.caffemodel can be downloaded here:'', Endl,
                       Str ''http://dl.caffe.berkeleyvision.org/bvlc_googlenet.caffemodel'', Endl]
                      w2)
                 else (Inr net, w2)))"

text \<open>
  Everything before the forward passes (lines 61 to 131): the options, the model, the
  compute target, the image and the input tensor. The result is the network handle and
  the tensor, or the way the process ended.
\<close>

definition prepare ::
  "('net, 'img, 'blob, 'p) lib \<Rightarrow> string list \<Rightarrow> ('img, 'blob, 'p) world \<Rightarrow>
     (ending + 'net \<times> 'blob) \<times> ('img, 'blob, 'p) world" where
  "prepare L argv w =
     (let parser = commandLineParser L argv;
          w0 = (if opt_help parser then put_cout [Usage_message] w else w);
          modelTxt = opt_proto parser;
          modelBin = opt_model parser;
          imageFile = opt_image parser;
          opencl = opt_opencl parser
      in case load_model L modelTxt modelBin w0 of
           (Inl e, w1) \<Rightarrow> (Inl e, w1)
         | (Inr net, w1) \<Rightarrow>
             (let (net1, w2) =
                    (if opencl
                     then (setPreferableTarget L net DNN_TARGET_OPENCL,
                           log_call (SetPreferableTarget DNN_TARGET_OPENCL) w1)
                     else (net, w1));
                  img = imread L imageFile;
                  w3 = log_call (Imread imageFile) w2
              in if img_empty L img then
                   (Inl (Exit (- 1)),
                    put_cerr [Str ''Can't read image from the file: '', Str imageFile, Endl] w3)
                 else
                   (let inputBlob =
                          blobFromImage L img 1.0 (224, 224) (Scalar 104 117 123 0) False
                    in (Inr (net1, inputBlob),
                        log_call
                          (BlobFromImage img 1.0 (224, 224) (Scalar 104 117 123 0) False) w3))))"

text \<open>
  \<^verbatim>\<open>net.setInput(blob, name)\<close> and \<^verbatim>\<open>net.forward(name)\<close>, with the call recorded. Both
  stand outside the \<^verbatim>\<open>try\<close> block: an exception that they throw ends the run.
\<close>

definition do_setInput ::
  "('net, 'img, 'blob, 'p) lib \<Rightarrow> 'net \<Rightarrow> 'blob \<Rightarrow> string \<Rightarrow> ('img, 'blob, 'p) world \<Rightarrow>
     (ending + 'net) \<times> ('img, 'blob, 'p) world" where
  "do_setInput L net blob name w =
     (case setInput L net blob name of
        Inl what \<Rightarrow> (Inl (Uncaught (Cv_exception what)), log_call (SetInput blob name) w)
      | Inr net' \<Rightarrow> (Inr net', log_call (SetInput blob name) w))"

definition do_forward ::
  "('net, 'img, 'blob, 'p) lib \<Rightarrow> 'net \<Rightarrow> string \<Rightarrow> ('img, 'blob, 'p) world \<Rightarrow>
     (ending + 'p list \<times> 'net) \<times> ('img, 'blob, 'p) world" where
  "do_forward L net name w =
     (case forward L net name of
        Inl what \<Rightarrow> (Inl (Uncaught (Cv_exception what)), log_call (Forward name) w)
      | Inr (prob, net') \<Rightarrow> (Inr (prob, net'), log_call (Forward name) w))"

text \<open>
  The loop of lines 136 to 140:
  \<^verbatim>\<open>for (int i = 0; i < 10; i++) { net.setInput(inputBlob, "data"); prob = net.forward("prob"); }\<close>
\<close>

function forward_loop ::
  "('net, 'img, 'blob, 'p) lib \<Rightarrow> 'blob \<Rightarrow> int \<Rightarrow> 'net \<Rightarrow> 'p list \<Rightarrow> ('img, 'blob, 'p) world \<Rightarrow>
     (ending + 'p list \<times> 'net) \<times> ('img, 'blob, 'p) world" where
  "forward_loop L inputBlob i net prob w =
     (if i < 10 then
        (case do_setInput L net inputBlob ''data'' w of
           (Inl e, w1) \<Rightarrow> (Inl e, w1)
         | (Inr net1, w1) \<Rightarrow>
             (case do_forward L net1 ''prob'' w1 of
                (Inl e, w2) \<Rightarrow> (Inl e, w2)
              | (Inr (prob', net2), w2) \<Rightarrow> forward_loop L inputBlob (i + 1) net2 prob' w2))
      else (Inr (prob, net), w))"
  by pat_completeness auto
termination
  by (relation "measure (\<lambda>(L, inputBlob, i, net, prob, w). nat (10 - i))") auto

text \<open>The forward passes (lines 134 to 140): one pass, then the loop.\<close>

definition run_inference ::
  "('net, 'img, 'blob, 'p) lib \<Rightarrow> 'net \<Rightarrow> 'blob \<Rightarrow> ('img, 'blob, 'p) world \<Rightarrow>
     (ending + 'p list \<times> 'net) \<times> ('img, 'blob, 'p) world" where
  "run_inference L net inputBlob w =
     (case do_setInput L net inputBlob ''data'' w of
        (Inl e, w1) \<Rightarrow> (Inl e, w1)
      | (Inr net1, w1) \<Rightarrow>
          (case do_forward L net1 ''prob'' w1 of
             (Inl e, w2) \<Rightarrow> (Inl e, w2)
           | (Inr (prob, net2), w2) \<Rightarrow> forward_loop L inputBlob 0 net2 prob w2))"

text \<open>
  Modelled from the spec: \<^verbatim>\<open>cv::minMaxLoc\<close> belongs to the OpenCV library, which is not
  among the sources. Section 4.6 of the specification: "performs a linear scan to find
  the maximum value and its index". The scan goes through the elements once, from the
  second on, and replaces the best value only by a strictly larger one. The location is
  the column of the one-row matrix.
\<close>

fun max_scan :: "'p::linorder list \<Rightarrow> nat \<Rightarrow> 'p \<Rightarrow> nat \<Rightarrow> 'p \<times> nat" where
  "max_scan [] i best k = (best, k)"
| "max_scan (v # vs) i best k =
     (if best < v then max_scan vs (Suc i) v i else max_scan vs (Suc i) best k)"

definition minMaxLoc ::
  "('net, 'img, 'blob, 'p::linorder) lib \<Rightarrow> 'p list \<Rightarrow> 'p \<times> int" where
  "minMaxLoc L probMat =
     (case probMat of
        [] \<Rightarrow> minMaxLoc_empty L
      | v # vs \<Rightarrow> (case max_scan vs 1 v 0 of (maxVal, x) \<Rightarrow> (maxVal, int x)))"

text \<open>
  The report (lines 143 to 153). The label file is read here, after the forward passes.
  The items of line 152 are inserted from left to right, so the class number is written
  before \<^verbatim>\<open>classNames.at(classId)\<close> is evaluated.
\<close>

definition report ::
  "('net, 'img, 'blob, 'p::{linorder,times,numeral}) lib \<Rightarrow> file_system \<Rightarrow> 'p list \<Rightarrow>
     ('img, 'blob, 'p) world \<Rightarrow> (ending + unit) \<times> ('img, 'blob, 'p) world" where
  "report L fs prob w =
     (let probMat = prob
      in case minMaxLoc L probMat of
           (classProb, classId) \<Rightarrow>
             (case readClassNames fs ''synset_words.txt'' w of
                (Inl e, w1) \<Rightarrow> (Inl e, w1)
              | (Inr classNames, w1) \<Rightarrow>
                  (let w2 = put_cout
                              [Str ''Best class: #'', Int_item classId, Str [CHR '' '', CHR 0x27]] w1
                   in case vector_at classNames classId of
                        Inl e \<Rightarrow> (Inl (Uncaught e), w2)
                      | Inr label \<Rightarrow>
                          (Inr (),
                           put_cout
                             [Str label, Str [CHR 0x27], Endl,
                              Str ''Probability: '', Dbl_item (classProb * 100), Str ''%'', Endl]
                             w2))))"

text \<open>
  \<^verbatim>\<open>doDnn\<close> (lines 59 to 154) is the three parts in sequence; an \<^verbatim>\<open>exit\<close> or an uncaught
  exception in one of them ends the run there.
\<close>

definition doDnn ::
  "('net, 'img, 'blob, 'p::{linorder,times,numeral}) lib \<Rightarrow> file_system \<Rightarrow> string list \<Rightarrow>
     ('img, 'blob, 'p) world \<Rightarrow> (ending + unit) \<times> ('img, 'blob, 'p) world" where
  "doDnn L fs argv w =
     (case prepare L argv w of
        (Inl e, w1) \<Rightarrow> (Inl e, w1)
      | (Inr (net, inputBlob), w1) \<Rightarrow>
          (case run_inference L net inputBlob w1 of
             (Inl e, w2) \<Rightarrow> (Inl e, w2)
           | (Inr (prob, net'), w2) \<Rightarrow> report L fs prob w2))"

text \<open>\<^verbatim>\<open>main\<close> calls \<^verbatim>\<open>doDnn\<close> and returns 0.\<close>

definition main ::
  "('net, 'img, 'blob, 'p::{linorder,times,numeral}) lib \<Rightarrow> file_system \<Rightarrow> string list \<Rightarrow>
     ('img, 'blob, 'p) world \<Rightarrow> ending \<times> ('img, 'blob, 'p) world" where
  "main L fs argv w =
     (case doDnn L fs argv w of
        (Inl e, w') \<Rightarrow> (e, w')
      | (Inr u, w') \<Rightarrow> (Exit 0, w'))"

section \<open>Notions of the specification\<close>

text \<open>
  The expression of line 52, \<^verbatim>\<open>name.substr(name.find(' ') + 1)\<close>, where it does not throw:
  the entry that a line contributes to the label list.
\<close>

definition class_name_of :: "string \<Rightarrow> string" where
  "class_name_of name = drop (unat (str_find name CHR '' '' + 1)) name"

text \<open>
  The lines of a file, for the statements about "each line": a line ends at a line feed
  or at the end of the file, and a line feed at the very end starts no further line.
\<close>

fun lines_of :: "string \<Rightarrow> string list" where
  "lines_of [] = []"
| "lines_of (c # cs) =
     (if c = line_feed then [] # lines_of cs
      else (case lines_of cs of [] \<Rightarrow> [[c]] | l # ls \<Rightarrow> (c # l) # ls))"

text \<open>
  A file written from a list of lines, with a line feed after each line; the flag says
  whether the last line has one as well.
\<close>

fun file_of_lines :: "string list \<Rightarrow> bool \<Rightarrow> string" where
  "file_of_lines [] final = []"
| "file_of_lines [l] final = (if final then l @ [line_feed] else l)"
| "file_of_lines (l # ls) final = l @ line_feed # file_of_lines ls final"

text \<open>
  A well-formed line, "<id><space><label>": it holds a space, and no line feed. It fits a
  \<^verbatim>\<open>std::string\<close>, whose size is a \<^verbatim>\<open>size_t\<close>. The label is what stands after the first
  space.
\<close>

definition well_formed_line :: "string \<Rightarrow> bool" where
  "well_formed_line l \<longleftrightarrow> CHR '' '' \<in> set l \<and> line_feed \<notin> set l \<and> length l < 2 ^ 64"

definition after_first_space :: "string \<Rightarrow> string" where
  "after_first_space l = tl (dropWhile (\<lambda>c. c \<noteq> CHR '' '') l)"

text \<open>
  The number of blank lines before line \<open>i\<close> (lines are counted from 0).
\<close>

definition blank_before :: "string list \<Rightarrow> nat \<Rightarrow> nat" where
  "blank_before ls i = length (filter (\<lambda>l. l = []) (take i ls))"

text \<open>
  The arg-max of a vector: the position of a largest element, the first one where
  several are equal.
\<close>

definition is_argmax :: "'p::linorder list \<Rightarrow> nat \<Rightarrow> bool" where
  "is_argmax prob k \<longleftrightarrow>
     k < length prob \<and> (\<forall>j < length prob. prob ! j \<le> prob ! k) \<and> (\<forall>j < k. prob ! j < prob ! k)"

text \<open>
  The program of the specification's section 4.5 without the repetition: the same
  \<^verbatim>\<open>doDnn\<close> with one set-input/forward cycle and no loop.
\<close>

definition run_inference_once ::
  "('net, 'img, 'blob, 'p) lib \<Rightarrow> 'net \<Rightarrow> 'blob \<Rightarrow> ('img, 'blob, 'p) world \<Rightarrow>
     (ending + 'p list \<times> 'net) \<times> ('img, 'blob, 'p) world" where
  "run_inference_once L net inputBlob w =
     (case do_setInput L net inputBlob ''data'' w of
        (Inl e, w1) \<Rightarrow> (Inl e, w1)
      | (Inr net1, w1) \<Rightarrow> do_forward L net1 ''prob'' w1)"

definition doDnn_once ::
  "('net, 'img, 'blob, 'p::{linorder,times,numeral}) lib \<Rightarrow> file_system \<Rightarrow> string list \<Rightarrow>
     ('img, 'blob, 'p) world \<Rightarrow> (ending + unit) \<times> ('img, 'blob, 'p) world" where
  "doDnn_once L fs argv w =
     (case prepare L argv w of
        (Inl e, w1) \<Rightarrow> (Inl e, w1)
      | (Inr (net, inputBlob), w1) \<Rightarrow>
          (case run_inference_once L net inputBlob w1 of
             (Inl e, w2) \<Rightarrow> (Inl e, w2)
           | (Inr (prob, net'), w2) \<Rightarrow> report L fs prob w2))"

text \<open>
  One set-input/forward cycle on a network handle: the output and the handle after it,
  or the message of the exception. \<open>nth_cycle L inputBlob n\<close> is the cycle run \<open>n + 1\<close>
  times in sequence on the same tensor: the result of the last cycle, or the first
  exception. A deterministic network: on every handle, a cycle that has returned
  returns the same output when it is run again on the same tensor.
\<close>

definition cycle ::
  "('net, 'img, 'blob, 'p) lib \<Rightarrow> 'blob \<Rightarrow> 'net \<Rightarrow> string + 'p list \<times> 'net" where
  "cycle L inputBlob net =
     (case setInput L net inputBlob ''data'' of
        Inl what \<Rightarrow> Inl what
      | Inr net1 \<Rightarrow> forward L net1 ''prob'')"

fun nth_cycle ::
  "('net, 'img, 'blob, 'p) lib \<Rightarrow> 'blob \<Rightarrow> nat \<Rightarrow> 'net \<Rightarrow> string + 'p list \<times> 'net" where
  "nth_cycle L inputBlob 0 net = cycle L inputBlob net"
| "nth_cycle L inputBlob (Suc n) net =
     (case cycle L inputBlob net of
        Inl what \<Rightarrow> Inl what
      | Inr (prob, net') \<Rightarrow> nth_cycle L inputBlob n net')"

definition deterministic :: "('net, 'img, 'blob, 'p) lib \<Rightarrow> bool" where
  "deterministic L \<longleftrightarrow>
     (\<forall>inputBlob net prob net'.
        cycle L inputBlob net = Inr (prob, net') \<longrightarrow>
        (\<exists>net''. cycle L inputBlob net' = Inr (prob, net'')))"

text \<open>
  An exception of the library that passes through \<^verbatim>\<open>doDnn\<close> as the ending of the run, and
  the output of the forward passes without the handle.
\<close>

definition uncaught :: "string + 'a \<Rightarrow> ending + 'a" where
  "uncaught r = (case r of Inl what \<Rightarrow> Inl (Uncaught (Cv_exception what)) | Inr x \<Rightarrow> Inr x)"

definition output_of :: "ending + 'p list \<times> 'net \<Rightarrow> ending + 'p list" where
  "output_of r = (case r of Inl e \<Rightarrow> Inl e | Inr (prob, net) \<Rightarrow> Inr prob)"

text \<open>
  What \<^verbatim>\<open>doDnn\<close> passes to the forward passes when the model has loaded and the image is
  read: the handle (the loaded network, or the default-constructed handle after a caught
  exception, with the compute target set when asked for) and the tensor. \<open>forward_passes\<close>
  is the eleven cycles on them.
\<close>

definition loaded_net :: "('net, 'img, 'blob, 'p) lib \<Rightarrow> string list \<Rightarrow> 'net" where
  "loaded_net L argv =
     (let loaded =
            (case readNetFromCaffe L (opt_proto (commandLineParser L argv))
                    (opt_model (commandLineParser L argv)) of
               Inl what \<Rightarrow> net_default L
             | Inr net \<Rightarrow> net)
      in if opt_opencl (commandLineParser L argv)
         then setPreferableTarget L loaded DNN_TARGET_OPENCL else loaded)"

definition input_tensor :: "('net, 'img, 'blob, 'p) lib \<Rightarrow> string list \<Rightarrow> 'blob" where
  "input_tensor L argv =
     blobFromImage L (imread L (opt_image (commandLineParser L argv))) 1.0 (224, 224)
       (Scalar 104 117 123 0) False"

definition forward_passes ::
  "('net, 'img, 'blob, 'p) lib \<Rightarrow> string list \<Rightarrow> string + 'p list \<times> 'net" where
  "forward_passes L argv = nth_cycle L (input_tensor L argv) 10 (loaded_net L argv)"

text \<open>
  The three failures that \<^verbatim>\<open>doDnn\<close> answers with \<^verbatim>\<open>exit(-1)\<close>: the model does not load
  (the library throws and the handle is empty), the image is not read (the decoded image
  is empty), the label file does not open.
\<close>

definition model_load_fails :: "('net, 'img, 'blob, 'p) lib \<Rightarrow> string list \<Rightarrow> bool" where
  "model_load_fails L argv \<longleftrightarrow>
     (case readNetFromCaffe L (opt_proto (commandLineParser L argv))
             (opt_model (commandLineParser L argv)) of
        Inl what \<Rightarrow> net_empty L (net_default L)
      | Inr net \<Rightarrow> False)"

definition image_unreadable :: "('net, 'img, 'blob, 'p) lib \<Rightarrow> string list \<Rightarrow> bool" where
  "image_unreadable L argv \<longleftrightarrow> img_empty L (imread L (opt_image (commandLineParser L argv)))"

definition label_file_missing :: "file_system \<Rightarrow> bool" where
  "label_file_missing fs \<longleftrightarrow> fs ''synset_words.txt'' = None"

text \<open>The arguments of the \<^verbatim>\<open>blobFromImage\<close> calls of a run, in order.\<close>

fun blob_calls ::
  "('img, 'blob) lib_call list \<Rightarrow> ('img \<times> real \<times> (nat \<times> nat) \<times> scalar \<times> bool) list" where
  "blob_calls [] = []"
| "blob_calls (BlobFromImage img scale sz mean swapRB # cs) =
     (img, scale, sz, mean, swapRB) # blob_calls cs"
| "blob_calls (c # cs) = blob_calls cs"

text \<open>
  Modelled from the spec: \<^verbatim>\<open>cv::dnn::blobFromImage\<close> belongs to the OpenCV library, which
  is not among the sources. Section 3 of the specification: "a 4-dimensional array
  (batch=1, channels=3, height=224, width=224) derived from the decoded image by
  resizing". The shape of the tensor built from one decoded image and a
  \<^verbatim>\<open>cv::Size(width, height)\<close>: batch, channels, height, width.
\<close>

definition blob_shape :: "nat \<times> nat \<Rightarrow> nat \<times> nat \<times> nat \<times> nat" where
  "blob_shape sz = (case sz of (width, height) \<Rightarrow> (1, 3, height, width))"

section \<open>A library and a file system to run the program on\<close>

text \<open>
  A small stand-in for the library: the network handle is a number (0 for the empty
  handle), an image is the list of its bytes, the tensor is the image, and the network
  answers every tensor with the same three probabilities.
\<close>

definition demo_lib :: "options \<Rightarrow> (nat, nat list, nat list, real) lib" where
  "demo_lib opts =
     \<lparr>commandLineParser = (\<lambda>argv. opts),
      readNetFromCaffe =
        (\<lambda>modelTxt modelBin.
           if modelBin = ''bvlc_googlenet.caffemodel'' then Inr 1 else Inl ''cannot open''),
      net_default = 0,
      net_empty = (\<lambda>net. net = 0),
      setPreferableTarget = (\<lambda>net t. net),
      imread = (\<lambda>file. if file = ''space_shuttle.jpg'' then [7, 7, 7] else []),
      img_empty = (\<lambda>img. img = []),
      blobFromImage = (\<lambda>img scale sz mean swapRB. img),
      setInput = (\<lambda>net blob name. Inr net),
      forward = (\<lambda>net name. Inr ([1 / 10, 7 / 10, 1 / 5], net)),
      minMaxLoc_empty = (0, - 1)\<rparr>"

text \<open>
  A library like the stand-in whose default-constructed handle is not empty, and options
  that name a model file and an image file that the stand-in does not have.
\<close>

definition tolerant_lib :: "options \<Rightarrow> (nat, nat list, nat list, real) lib" where
  "tolerant_lib opts = (demo_lib opts)\<lparr>net_default := 2\<rparr>"

definition other_model :: options where
  "other_model = default_options\<lparr>opt_model := ''other.caffemodel''\<rparr>"

definition other_image :: options where
  "other_image = default_options\<lparr>opt_image := ''other.jpg''\<rparr>"

text \<open>
  A library whose network counts its forward passes and changes its answer after the
  fifth: it is not deterministic.
\<close>

definition counting_lib :: "options \<Rightarrow> (nat, nat list, nat list, real) lib" where
  "counting_lib opts =
     (demo_lib opts)
       \<lparr>forward :=
          (\<lambda>net name. Inr (if net < 5 then [9 / 10, 1 / 10] else [1 / 10, 9 / 10], Suc net))\<rparr>"

text \<open>A library whose network has no layer "prob": every forward pass throws.\<close>

definition throwing_lib :: "options \<Rightarrow> (nat, nat list, nat list, real) lib" where
  "throwing_lib opts = (demo_lib opts)\<lparr>forward := (\<lambda>net name. Inl ''no layer prob'')\<rparr>"

definition demo_fs :: file_system where
  "demo_fs filename =
     (if filename = ''synset_words.txt''
      then Some (file_of_lines [''n01 tench'', ''n02 space shuttle'', ''n03 goldfish''] True,
                 End_of_file)
      else None)"

definition blank_fs :: file_system where
  "blank_fs filename =
     (if filename = ''synset_words.txt''
      then Some (file_of_lines [''n01 tench'', [], ''n02 space shuttle''] True, End_of_file)
      else None)"

definition short_fs :: file_system where
  "short_fs filename =
     (if filename = ''synset_words.txt''
      then Some (file_of_lines [''n01 tench''] True, End_of_file) else None)"

text \<open>A file system in which the label file is a directory: it opens, and no read succeeds.\<close>

definition directory_fs :: file_system where
  "directory_fs filename = (if filename = ''synset_words.txt'' then Some ([], Read_error) else None)"

definition no_files :: file_system where
  "no_files filename = None"

definition empty_world :: "('img, 'blob, 'p) world" where
  "empty_world = \<lparr>cout = [], cerr = [], calls = []\<rparr>"

section \<open>The label loader: lines, positions, the loop\<close>

text \<open>
  The position that \<^verbatim>\<open>find\<close> returns and what \<^verbatim>\<open>substr\<close> makes of it, \<^verbatim>\<open>getline\<close> on a
  stream that starts with a line, and the loop of \<^verbatim>\<open>readClassNames\<close> as a function of the
  lines of the file. The position \<^verbatim>\<open>find(' ') + 1\<close> never exceeds the length of the line,
  so the \<^verbatim>\<open>substr\<close> of line 52 does not throw.
\<close>

lemma find_from_absent: "c \<notin> set s \<Longrightarrow> find_from s c i = npos"
  by (induction s arbitrary: i) auto

lemma find_from_first:
  "c \<notin> set pre \<Longrightarrow> find_from (pre @ c # post) c i = of_nat (i + length pre)"
  by (induction pre arbitrary: i) auto

lemma unat_of_nat_succ_le: "unat (of_nat n + 1 :: size_t) \<le> Suc n"
proof -
  have "unat (of_nat n + 1 :: size_t) = unat (of_nat (Suc n) :: size_t)"
    by (simp add: add.commute)
  also have "\<dots> \<le> Suc n"
    by (simp add: unat_of_nat del: of_nat_Suc)
  finally show ?thesis .
qed

lemma find_pos_in_range: "unat (str_find name c + 1) \<le> length name"
proof (cases "c \<in> set name")
  case True
  then obtain pre post where name: "name = pre @ c # post" and pre: "c \<notin> set pre"
    by (auto dest: split_list_first)
  have "str_find name c = of_nat (length pre)"
    using find_from_first [OF pre, of post 0] by (simp add: str_find_def name)
  then show ?thesis
    using unat_of_nat_succ_le [of "length pre"] by (simp add: name)
next
  case False
  then show ?thesis
    by (simp add: str_find_def find_from_absent npos_def)
qed

lemma substr_class_name:
  "substr name (str_find name CHR '' '' + 1) = Inr (class_name_of name)"
  using find_pos_in_range [of name "CHR '' ''"] by (simp add: substr_def class_name_of_def)

lemma class_name_of_no_space: "CHR '' '' \<notin> set name \<Longrightarrow> class_name_of name = name"
  by (simp add: class_name_of_def str_find_def find_from_absent npos_def)

lemma class_name_of_first_space:
  assumes "CHR '' '' \<notin> set pre" and "length (pre @ CHR '' '' # post) < 2 ^ 64"
  shows "class_name_of (pre @ CHR '' '' # post) = post"
proof -
  have "str_find (pre @ CHR '' '' # post) CHR '' '' = of_nat (length pre)"
    using find_from_first [OF assms(1), of post 0] by (simp add: str_find_def)
  moreover have "unat (of_nat (length pre) + 1 :: size_t) = Suc (length pre)"
  proof -
    have "unat (of_nat (length pre) + 1 :: size_t) = unat (of_nat (Suc (length pre)) :: size_t)"
      by (simp add: add.commute)
    also have "\<dots> = Suc (length pre)"
      using assms(2) by (simp add: unat_of_nat del: of_nat_Suc)
    finally show ?thesis .
  qed
  ultimately show ?thesis
    by (simp add: class_name_of_def)
qed

lemma after_first_space_split:
  "CHR '' '' \<notin> set pre \<Longrightarrow> after_first_space (pre @ CHR '' '' # post) = post"
  by (induction pre) (auto simp: after_first_space_def)

lemma class_name_of_well_formed:
  assumes "well_formed_line l"
  shows "class_name_of l = after_first_space l"
proof -
  from assms obtain pre post where l: "l = pre @ CHR '' '' # post" and pre: "CHR '' '' \<notin> set pre"
    by (auto simp: well_formed_line_def dest: split_list_first)
  from assms have "length (pre @ CHR '' '' # post) < 2 ^ 64"
    by (simp add: well_formed_line_def l)
  then show ?thesis
    using class_name_of_first_space [OF pre] after_first_space_split [OF pre] by (simp add: l)
qed

lemma take_line_line_feed:
  "line_feed \<notin> set l \<Longrightarrow> take_line (l @ line_feed # r) = (l, r, True)"
  by (induction l) auto

lemma take_line_last_line: "line_feed \<notin> set l \<Longrightarrow> take_line l = (l, [], False)"
  by (induction l) auto

lemma getline_line_feed:
  "line_feed \<notin> set l \<Longrightarrow> getline (reading (l @ line_feed # r) e) = (l, reading r e)"
  by (simp add: getline_def reading_def take_line_line_feed)

lemma getline_end_of_file:
  "line_feed \<notin> set l \<Longrightarrow>
   getline (reading l End_of_file) =
     (l, \<lparr>unread = [], at_end = End_of_file, eofbit = True, failed = (l = [])\<rparr>)"
  by (simp add: getline_def reading_def take_line_last_line)

lemma getline_read_error:
  "line_feed \<notin> set l \<Longrightarrow>
   getline (reading l Read_error) =
     (l, \<lparr>unread = [], at_end = Read_error, eofbit = False, failed = True\<rparr>)"
  by (simp add: getline_def reading_def take_line_last_line)

lemma getline_failed: "failed fp \<Longrightarrow> getline fp = ([], fp)"
  by (cases fp) (simp add: getline_def)

lemma lines_of_line_feed:
  "line_feed \<notin> set l \<Longrightarrow> lines_of (l @ line_feed # r) = l # lines_of r"
  by (induction l) auto

lemma lines_of_last_line: "line_feed \<notin> set l \<Longrightarrow> l \<noteq> [] \<Longrightarrow> lines_of l = [l]"
proof (induction l)
  case Nil
  then show ?case by simp
next
  case (Cons a l)
  then show ?case
    by (cases "l = []") auto
qed

lemma read_loop_eof: "eofbit fp \<Longrightarrow> read_loop fp classNames = Some (Inr classNames)"
  by (subst read_loop.simps) simp

lemma read_loop_step:
  "\<not> eofbit fp \<Longrightarrow> getline fp = (name, fp') \<Longrightarrow>
   read_loop fp classNames =
     read_loop fp' (if name = [] then classNames else classNames @ [class_name_of name])"
  by (subst read_loop.simps) (simp add: substr_class_name)

lemma read_loop_reading:
  "line_feed \<notin> set l \<Longrightarrow>
   read_loop (reading (l @ line_feed # r) e) classNames =
     read_loop (reading r e) (if l = [] then classNames else classNames @ [class_name_of l])"
proof -
  assume l: "line_feed \<notin> set l"
  have "\<not> eofbit (reading (l @ line_feed # r) e)"
    by (simp add: reading_def)
  then show ?thesis
    using getline_line_feed [OF l] by (rule read_loop_step)
qed

lemma read_loop_last_line:
  "line_feed \<notin> set l \<Longrightarrow>
   read_loop (reading l End_of_file) classNames =
     Some (Inr (if l = [] then classNames else classNames @ [class_name_of l]))"
proof -
  assume l: "line_feed \<notin> set l"
  have "\<not> eofbit (reading l End_of_file)"
    by (simp add: reading_def)
  then have "read_loop (reading l End_of_file) classNames =
      read_loop \<lparr>unread = [], at_end = End_of_file, eofbit = True, failed = (l = [])\<rparr>
        (if l = [] then classNames else classNames @ [class_name_of l])"
    using getline_end_of_file [OF l] by (rule read_loop_step)
  then show ?thesis
    by (simp add: read_loop_eof)
qed

text \<open>The loop on a file that is read to its end: it returns the entries of the lines.\<close>

lemma read_loop_lines:
  "read_loop (reading fp End_of_file) classNames =
     Some (Inr (classNames @ map class_name_of (filter (\<lambda>l. l \<noteq> []) (lines_of fp))))"
proof (induction fp arbitrary: classNames rule: length_induct)
  case (1 fp)
  show ?case
  proof (cases "line_feed \<in> set fp")
    case True
    then obtain l r where fp: "fp = l @ line_feed # r" and l: "line_feed \<notin> set l"
      by (auto dest: split_list_first)
    have "length r < length fp"
      by (simp add: fp)
    with 1 have IH: "\<And>acc. read_loop (reading r End_of_file) acc =
        Some (Inr (acc @ map class_name_of (filter (\<lambda>l. l \<noteq> []) (lines_of r))))"
      by blast
    show ?thesis
      unfolding fp read_loop_reading [OF l] lines_of_line_feed [OF l]
      by (simp add: IH)
  next
    case False
    show ?thesis
    proof (cases "fp = []")
      case True
      then show ?thesis
        using read_loop_last_line [of "[]" classNames] by simp
    next
      case nonempty: False
      show ?thesis
        unfolding read_loop_last_line [OF False] lines_of_last_line [OF False nonempty]
        using nonempty by simp
    qed
  qed
qed

text \<open>
  The loop on a stream whose reads fail: once a read has failed, \<^verbatim>\<open>getline\<close> reads nothing
  and never sets \<^verbatim>\<open>eofbit\<close>, so the loop does not return.
\<close>

lemma read_loop_returns_not_failed:
  assumes "read_loop fp classNames = Some y"
  shows "\<not> (failed fp \<and> \<not> eofbit fp)"
  using assms
proof (induction rule: read_loop.raw_induct)
  case (1 loop fp classNames y)
  show ?case
  proof
    assume stuck: "failed fp \<and> \<not> eofbit fp"
    then have "loop fp classNames = Some y"
      using 1(2) by (simp add: getline_failed)
    then have "\<not> (failed fp \<and> \<not> eofbit fp)"
      using 1(3) by (rule 1(1))
    with stuck show False
      by simp
  qed
qed (rule assms)

lemma read_loop_failed: "failed fp \<Longrightarrow> \<not> eofbit fp \<Longrightarrow> read_loop fp classNames = None"
  using read_loop_returns_not_failed [of fp classNames] by (cases "read_loop fp classNames") auto

lemma read_loop_read_error: "read_loop (reading fp Read_error) classNames = None"
proof (induction fp arbitrary: classNames rule: length_induct)
  case (1 fp)
  show ?case
  proof (cases "line_feed \<in> set fp")
    case True
    then obtain l r where fp: "fp = l @ line_feed # r" and l: "line_feed \<notin> set l"
      by (auto dest: split_list_first)
    have "length r < length fp"
      by (simp add: fp)
    with 1 have IH: "\<And>acc. read_loop (reading r Read_error) acc = None"
      by blast
    show ?thesis
      unfolding fp read_loop_reading [OF l] by (rule IH)
  next
    case False
    have "\<not> eofbit (reading fp Read_error)"
      by (simp add: reading_def)
    then have "read_loop (reading fp Read_error) classNames =
        read_loop \<lparr>unread = [], at_end = Read_error, eofbit = False, failed = True\<rparr>
          (if fp = [] then classNames else classNames @ [class_name_of fp])"
      using getline_read_error [OF False] by (rule read_loop_step)
    then show ?thesis
      by (simp add: read_loop_failed)
  qed
qed

lemma lines_of_file_of_lines:
  "\<forall>l \<in> set ls. line_feed \<notin> set l \<and> l \<noteq> [] \<Longrightarrow> lines_of (file_of_lines ls final) = ls"
proof (induction ls final rule: file_of_lines.induct)
  case (1 final)
  then show ?case by simp
next
  case (2 l final)
  then show ?case
    using lines_of_line_feed [of l "[]"] lines_of_last_line [of l] by simp
next
  case (3 l v va final)
  then show ?case
    using lines_of_line_feed [of l "file_of_lines (v # va) final"] by simp
qed

lemma lines_of_file_of_lines_final:
  "\<forall>l \<in> set ls. line_feed \<notin> set l \<Longrightarrow> lines_of (file_of_lines ls True) = ls"
proof (induction ls "True" rule: file_of_lines.induct)
  case 1
  then show ?case by simp
next
  case (2 l)
  then show ?case
    using lines_of_line_feed [of l "[]"] by simp
next
  case (3 l v va)
  then show ?case
    using lines_of_line_feed [of l "file_of_lines (v # va) True"] by simp
qed

lemma readClassNames_opened:
  "fs filename = Some (fp, End_of_file) \<Longrightarrow>
   fst (readClassNames fs filename w) =
     Inr (map class_name_of (filter (\<lambda>l. l \<noteq> []) (lines_of fp)))"
  by (simp add: readClassNames_def read_loop_lines)

lemma readClassNames_read_error:
  "fs filename = Some (fp, Read_error) \<Longrightarrow>
   fst (readClassNames fs filename w) = Inl Never_returns"
  by (simp add: readClassNames_def read_loop_read_error)

lemma filter_split_at:
  assumes "i < length xs" and "P (xs ! i)"
  shows "filter P xs = filter P (take i xs) @ xs ! i # filter P (drop (Suc i) xs)"
proof -
  have "filter P xs = filter P (take i xs @ xs ! i # drop (Suc i) xs)"
    using id_take_nth_drop [OF assms(1)] by simp
  then show ?thesis
    using assms(2) by simp
qed

lemma filter_rank_less:
  assumes "i < length xs" and "P (xs ! i)"
  shows "length (filter P (take i xs)) < length (filter P xs)"
proof -
  have "length (filter P xs) =
      length (filter P (take i xs) @ xs ! i # filter P (drop (Suc i) xs))"
    using filter_split_at [of i xs P] assms by simp
  then show ?thesis
    by simp
qed

lemma filter_rank_nth:
  assumes "i < length xs" and "P (xs ! i)"
  shows "filter P xs ! length (filter P (take i xs)) = xs ! i"
proof -
  have "filter P xs ! length (filter P (take i xs)) =
      (filter P (take i xs) @ xs ! i # filter P (drop (Suc i) xs)) ! length (filter P (take i xs))"
    using filter_split_at [of i xs P] assms by simp
  then show ?thesis
    by simp
qed

lemma rank_blank_before:
  assumes "i < length ls"
  shows "i - blank_before ls i = length (filter (\<lambda>l. l \<noteq> []) (take i ls))"
proof -
  have "length (filter (\<lambda>l. l \<noteq> []) (take i ls)) + blank_before ls i = i"
    using assms sum_length_filter_compl [of "\<lambda>l. l \<noteq> []" "take i ls"]
    by (simp add: blank_before_def)
  then show ?thesis
    by simp
qed

lemma well_formed_line_nonempty: "well_formed_line l \<Longrightarrow> l \<noteq> [] \<and> line_feed \<notin> set l"
  by (auto simp: well_formed_line_def)

lemma class_name_tench: "class_name_of ''n01 tench'' = ''tench''"
  using class_name_of_first_space [of "''n01''" "''tench''"] by simp

lemma class_name_shuttle: "class_name_of ''n02 space shuttle'' = ''space shuttle''"
  using class_name_of_first_space [of "''n02''" "''space shuttle''"] by simp

lemma lines_of_blank_file:
  "lines_of (file_of_lines [''n01 tench'', [], ''n02 space shuttle''] True) =
     [''n01 tench'', [], ''n02 space shuttle'']"
  by (rule lines_of_file_of_lines_final) (simp add: line_feed_def)

section \<open>The stages of doDnn\<close>

text \<open>
  What each stage returns and what it adds to the two streams and to the sequence of
  calls, for every library: the facts that the statements about whole runs are put
  together from.
\<close>

lemma world_log_call [simp]:
  "cout (log_call c w) = cout w" "cerr (log_call c w) = cerr w"
  "calls (log_call c w) = calls w @ [c]"
  by (simp_all add: log_call_def)

lemma world_put_cout [simp]:
  "cout (put_cout xs w) = cout w @ xs" "cerr (put_cout xs w) = cerr w"
  "calls (put_cout xs w) = calls w"
  by (simp_all add: put_cout_def)

lemma world_put_cerr [simp]:
  "cout (put_cerr xs w) = cout w" "cerr (put_cerr xs w) = cerr w @ xs"
  "calls (put_cerr xs w) = calls w"
  by (simp_all add: put_cerr_def)

lemma blob_calls_append: "blob_calls (cs @ ds) = blob_calls cs @ blob_calls ds"
  by (induction cs rule: blob_calls.induct) simp_all

subsection \<open>Loading the model\<close>

lemma load_model_loaded:
  "readNetFromCaffe L modelTxt modelBin = Inr net \<Longrightarrow>
   load_model L modelTxt modelBin w = (Inr net, log_call (ReadNetFromCaffe modelTxt modelBin) w)"
  by (simp add: load_model_def)

lemma load_model_empty:
  "readNetFromCaffe L modelTxt modelBin = Inl what \<Longrightarrow> net_empty L (net_default L) \<Longrightarrow>
   load_model L modelTxt modelBin w =
     (Inl (Exit (- 1)),
      put_cerr
        [Str ''Can't load network by using the following files: '', Endl,
         Str ''prototxt:   '', Str modelTxt, Endl,
         Str ''caffemodel: '', Str modelBin, Endl,
         Str ''bvlc_googlenet.caffemodel can be downloaded here:'', Endl,
         Str ''http://dl.caffe.berkeleyvision.org/bvlc_googlenet.caffemodel'', Endl]
        (put_cerr [Str ''Exception: '', Str what, Endl]
           (log_call (ReadNetFromCaffe modelTxt modelBin) w)))"
  by (simp add: load_model_def)

lemma load_model_tolerated:
  "readNetFromCaffe L modelTxt modelBin = Inl what \<Longrightarrow> \<not> net_empty L (net_default L) \<Longrightarrow>
   load_model L modelTxt modelBin w =
     (Inr (net_default L),
      put_cerr [Str ''Exception: '', Str what, Endl]
        (log_call (ReadNetFromCaffe modelTxt modelBin) w))"
  by (simp add: load_model_def)

subsection \<open>prepare\<close>

lemma prepare_fails:
  "model_load_fails L argv \<or> image_unreadable L argv \<Longrightarrow>
   fst (prepare L argv w) = Inl (Exit (- 1))"
  by (auto simp: prepare_def load_model_def model_load_fails_def image_unreadable_def Let_def
      split: sum.splits prod.splits)

lemma prepare_succeeds:
  "\<not> model_load_fails L argv \<Longrightarrow> \<not> image_unreadable L argv \<Longrightarrow>
   \<exists>net. fst (prepare L argv w) =
     Inr (net, blobFromImage L (imread L (opt_image (commandLineParser L argv))) 1 (224, 224)
                 (Scalar 104 117 123 0) False)"
  by (auto simp: prepare_def load_model_def model_load_fails_def image_unreadable_def Let_def
      split: sum.splits prod.splits)

lemma prepare_cout:
  "cout (snd (prepare L argv w)) =
     cout w @ (if opt_help (commandLineParser L argv) then [Usage_message] else [])"
  by (auto simp: prepare_def load_model_def Let_def split: sum.splits prod.splits)

lemma prepare_calls:
  "calls (snd (prepare L argv w)) =
     calls w @
     [ReadNetFromCaffe (opt_proto (commandLineParser L argv))
        (opt_model (commandLineParser L argv))] @
     (if model_load_fails L argv then []
      else (if opt_opencl (commandLineParser L argv)
            then [SetPreferableTarget DNN_TARGET_OPENCL] else []) @
           [Imread (opt_image (commandLineParser L argv))] @
           (if image_unreadable L argv then []
            else [BlobFromImage (imread L (opt_image (commandLineParser L argv))) 1 (224, 224)
                    (Scalar 104 117 123 0) False]))"
  by (auto simp: prepare_def load_model_def model_load_fails_def image_unreadable_def Let_def
      split: sum.splits prod.splits)

subsection \<open>The forward passes\<close>

text \<open>
  One cycle of the loop either throws, and the run ends there with the exception, or
  returns, and the loop goes on with the handle that the cycle has left. So the eleven
  cycles of \<^verbatim>\<open>doDnn\<close> are \<open>nth_cycle\<close> at 10.
\<close>

declare forward_loop.simps [simp del]

lemma blob_calls_cycle_calls:
  "set cs \<subseteq> {SetInput inputBlob name, Forward name'} \<Longrightarrow> blob_calls cs = []"
  by (induction cs) auto

lemma nth_cycle_throws:
  "cycle L inputBlob net = Inl what \<Longrightarrow> nth_cycle L inputBlob n net = Inl what"
  by (cases n) simp_all

lemma nth_cycle_returns:
  "cycle L inputBlob net = Inr (prob, net') \<Longrightarrow>
   nth_cycle L inputBlob (Suc n) net = nth_cycle L inputBlob n net'"
  by simp

lemma nth_cycle_deterministic:
  assumes "deterministic L"
  shows "cycle L inputBlob net = Inr (prob, net') \<Longrightarrow>
         \<exists>net''. nth_cycle L inputBlob n net = Inr (prob, net'')"
proof (induction n arbitrary: net net')
  case 0
  then show ?case
    by simp
next
  case (Suc n)
  obtain net'' where "cycle L inputBlob net' = Inr (prob, net'')"
    using assms Suc.prems unfolding deterministic_def by blast
  then have "\<exists>net3. nth_cycle L inputBlob n net' = Inr (prob, net3)"
    by (rule Suc.IH)
  then show ?case
    using Suc.prems by simp
qed

lemma forward_loop_done:
  "\<not> i < 10 \<Longrightarrow> forward_loop L inputBlob i net prob w = (Inr (prob, net), w)"
  by (simp add: forward_loop.simps)

lemma forward_loop_throws:
  "i < 10 \<Longrightarrow> cycle L inputBlob net = Inl what \<Longrightarrow>
   \<exists>w'. forward_loop L inputBlob i net prob w = (Inl (Uncaught (Cv_exception what)), w') \<and>
        cout w' = cout w \<and> cerr w' = cerr w \<and>
        (\<exists>cs. calls w' = calls w @ cs \<and>
              set cs \<subseteq> {SetInput inputBlob ''data'', Forward ''prob''})"
  by (subst forward_loop.simps)
    (auto simp: do_setInput_def do_forward_def cycle_def split: sum.splits)

lemma forward_loop_step:
  "i < 10 \<Longrightarrow> cycle L inputBlob net = Inr (prob', net') \<Longrightarrow>
   forward_loop L inputBlob i net prob w =
     forward_loop L inputBlob (i + 1) net' prob'
       (log_call (Forward ''prob'') (log_call (SetInput inputBlob ''data'') w))"
  by (subst forward_loop.simps)
    (auto simp: do_setInput_def do_forward_def cycle_def split: sum.splits)

lemma forward_loop_world:
  "cout (snd (forward_loop L inputBlob i net prob w)) = cout w \<and>
   cerr (snd (forward_loop L inputBlob i net prob w)) = cerr w \<and>
   (\<exists>cs. calls (snd (forward_loop L inputBlob i net prob w)) = calls w @ cs \<and>
         set cs \<subseteq> {SetInput inputBlob ''data'', Forward ''prob''})"
proof (induction "nat (10 - i)" arbitrary: i net prob w)
  case 0
  then have "\<not> i < 10"
    by simp
  then show ?case
    by (simp add: forward_loop_done)
next
  case (Suc n)
  then have i: "i < 10" and n: "n = nat (10 - (i + 1))"
    by simp_all
  show ?case
  proof (cases "cycle L inputBlob net")
    case (Inl what)
    then show ?thesis
      using forward_loop_throws [OF i Inl, of prob w] by auto
  next
    case (Inr r)
    obtain prob' net' where r: "r = (prob', net')"
      by (cases r)
    let ?w = "log_call (Forward ''prob'') (log_call (SetInput inputBlob ''data'') w)"
    obtain cs where cs: "calls (snd (forward_loop L inputBlob (i + 1) net' prob' ?w)) =
        calls ?w @ cs" "set cs \<subseteq> {SetInput inputBlob ''data'', Forward ''prob''}"
      using Suc.hyps(1) [OF n, of net' prob' ?w] by blast
    have "calls (snd (forward_loop L inputBlob (i + 1) net' prob' ?w)) =
        calls w @ (SetInput inputBlob ''data'' # Forward ''prob'' # cs)"
      using cs(1) by simp
    moreover have "set (SetInput inputBlob ''data'' # Forward ''prob'' # cs) \<subseteq>
        {SetInput inputBlob ''data'', Forward ''prob''}"
      using cs(2) by simp
    ultimately have "\<exists>ds. calls (snd (forward_loop L inputBlob (i + 1) net' prob' ?w)) =
        calls w @ ds \<and> set ds \<subseteq> {SetInput inputBlob ''data'', Forward ''prob''}"
      by blast
    then show ?thesis
      unfolding forward_loop_step [OF i Inr [unfolded r]]
      using Suc.hyps(1) [OF n, of net' prob' ?w] by simp
  qed
qed

lemma forward_loop_returned_calls:
  "fst (forward_loop L inputBlob i net prob w) = Inr r \<Longrightarrow>
   calls (snd (forward_loop L inputBlob i net prob w)) =
     calls w @ concat (replicate (nat (10 - i)) [SetInput inputBlob ''data'', Forward ''prob''])"
proof (induction "nat (10 - i)" arbitrary: i net prob w)
  case 0
  then have "\<not> i < 10"
    by simp
  then show ?case
    using 0 by (simp add: forward_loop_done)
next
  case (Suc n)
  then have i: "i < 10" and n: "n = nat (10 - (i + 1))" and suc: "nat (10 - i) = Suc n"
    by simp_all
  show ?case
  proof (cases "cycle L inputBlob net")
    case (Inl what)
    then show ?thesis
      using forward_loop_throws [OF i Inl, of prob w] Suc.prems by auto
  next
    case (Inr r')
    obtain prob' net' where r': "r' = (prob', net')"
      by (cases r')
    note step = forward_loop_step [OF i Inr [unfolded r'], of prob w]
    have "fst (forward_loop L inputBlob (i + 1) net' prob'
        (log_call (Forward ''prob'') (log_call (SetInput inputBlob ''data'') w))) = Inr r"
      using Suc.prems unfolding step .
    then show ?thesis
      unfolding step suc using Suc.hyps(1) [OF n] n by simp
  qed
qed

lemma forward_loop_result:
  "fst (forward_loop L inputBlob i net prob w) =
     (if i < 10 then uncaught (nth_cycle L inputBlob (nat (9 - i)) net) else Inr (prob, net))"
proof (induction "nat (10 - i)" arbitrary: i net prob w)
  case 0
  then have "\<not> i < 10"
    by simp
  then show ?case
    by (simp add: forward_loop_done)
next
  case (Suc n)
  then have i: "i < 10" and n: "n = nat (10 - (i + 1))"
    by simp_all
  show ?case
  proof (cases "cycle L inputBlob net")
    case (Inl what)
    then show ?thesis
      using forward_loop_throws [OF i Inl, of prob w] i
      by (auto simp: nth_cycle_throws uncaught_def)
  next
    case (Inr r)
    obtain prob' net' where r: "r = (prob', net')"
      by (cases r)
    note cyc = Inr [unfolded r]
    note step = forward_loop_step [OF i cyc, of prob w]
    show ?thesis
    proof (cases "i + 1 < 10")
      case True
      then have "nat (9 - i) = Suc (nat (9 - (i + 1)))"
        by simp
      then have "nth_cycle L inputBlob (nat (9 - i)) net =
          nth_cycle L inputBlob (nat (9 - (i + 1))) net'"
        using cyc by simp
      then show ?thesis
        unfolding step using Suc.hyps(1) [OF n] True i by simp
    next
      case False
      with i have "i = 9"
        by simp
      then show ?thesis
        unfolding step using Suc.hyps(1) [OF n] cyc by (simp add: uncaught_def)
    qed
  qed
qed

lemma concat_replicate_11: "concat (replicate 11 xs) = xs @ concat (replicate 10 xs)"
proof -
  have "(11::nat) = Suc 10"
    by simp
  then show ?thesis
    by (simp only: replicate_Suc concat.simps)
qed

lemma run_inference_throws:
  "cycle L inputBlob net = Inl what \<Longrightarrow>
   \<exists>w'. run_inference L net inputBlob w = (Inl (Uncaught (Cv_exception what)), w') \<and>
        cout w' = cout w \<and> cerr w' = cerr w \<and>
        (\<exists>cs. calls w' = calls w @ cs \<and>
              set cs \<subseteq> {SetInput inputBlob ''data'', Forward ''prob''})"
  by (auto simp: run_inference_def do_setInput_def do_forward_def cycle_def split: sum.splits)

lemma run_inference_unfold:
  "cycle L inputBlob net = Inr (prob, net') \<Longrightarrow>
   run_inference L net inputBlob w =
     forward_loop L inputBlob 0 net' prob
       (log_call (Forward ''prob'') (log_call (SetInput inputBlob ''data'') w))"
  by (auto simp: run_inference_def do_setInput_def do_forward_def cycle_def split: sum.splits)

lemma run_inference_once_throws:
  "cycle L inputBlob net = Inl what \<Longrightarrow>
   \<exists>w'. run_inference_once L net inputBlob w = (Inl (Uncaught (Cv_exception what)), w') \<and>
        cout w' = cout w \<and> cerr w' = cerr w"
  by (auto simp: run_inference_once_def do_setInput_def do_forward_def cycle_def
      split: sum.splits)

lemma run_inference_once_unfold:
  "cycle L inputBlob net = Inr (prob, net') \<Longrightarrow>
   run_inference_once L net inputBlob w =
     (Inr (prob, net'), log_call (Forward ''prob'') (log_call (SetInput inputBlob ''data'') w))"
  by (auto simp: run_inference_once_def do_setInput_def do_forward_def cycle_def
      split: sum.splits)

lemma run_inference_world:
  "cout (snd (run_inference L net inputBlob w)) = cout w \<and>
   cerr (snd (run_inference L net inputBlob w)) = cerr w \<and>
   (\<exists>cs. calls (snd (run_inference L net inputBlob w)) = calls w @ cs \<and>
         set cs \<subseteq> {SetInput inputBlob ''data'', Forward ''prob''})"
proof (cases "cycle L inputBlob net")
  case (Inl what)
  then show ?thesis
    using run_inference_throws [OF Inl, of w] by auto
next
  case (Inr r)
  obtain prob net' where r: "r = (prob, net')"
    by (cases r)
  let ?w = "log_call (Forward ''prob'') (log_call (SetInput inputBlob ''data'') w)"
  obtain cs where cs: "calls (snd (forward_loop L inputBlob 0 net' prob ?w)) = calls ?w @ cs"
    "set cs \<subseteq> {SetInput inputBlob ''data'', Forward ''prob''}"
    using forward_loop_world [of L inputBlob 0 net' prob ?w] by blast
  have "calls (snd (forward_loop L inputBlob 0 net' prob ?w)) =
      calls w @ (SetInput inputBlob ''data'' # Forward ''prob'' # cs)"
    using cs(1) by simp
  moreover have "set (SetInput inputBlob ''data'' # Forward ''prob'' # cs) \<subseteq>
      {SetInput inputBlob ''data'', Forward ''prob''}"
    using cs(2) by simp
  ultimately have "\<exists>ds. calls (snd (forward_loop L inputBlob 0 net' prob ?w)) = calls w @ ds \<and>
      set ds \<subseteq> {SetInput inputBlob ''data'', Forward ''prob''}"
    by blast
  then show ?thesis
    unfolding run_inference_unfold [OF Inr [unfolded r]]
    using forward_loop_world [of L inputBlob 0 net' prob ?w] by simp
qed

lemma run_inference_returned_calls:
  "fst (run_inference L net inputBlob w) = Inr r \<Longrightarrow>
   calls (snd (run_inference L net inputBlob w)) =
     calls w @ concat (replicate 11 [SetInput inputBlob ''data'', Forward ''prob''])"
proof (cases "cycle L inputBlob net")
  case (Inl what)
  assume "fst (run_inference L net inputBlob w) = Inr r"
  then show ?thesis
    using run_inference_throws [OF Inl, of w] by auto
next
  case (Inr r')
  obtain prob net' where r': "r' = (prob, net')"
    by (cases r')
  note unfold = run_inference_unfold [OF Inr [unfolded r'], of w]
  assume "fst (run_inference L net inputBlob w) = Inr r"
  then have "fst (forward_loop L inputBlob 0 net' prob
      (log_call (Forward ''prob'') (log_call (SetInput inputBlob ''data'') w))) = Inr r"
    unfolding unfold .
  then show ?thesis
    unfolding unfold concat_replicate_11
    by (simp add: forward_loop_returned_calls)
qed

lemma run_inference_result:
  "fst (run_inference L net inputBlob w) = uncaught (nth_cycle L inputBlob 10 net)"
proof (cases "cycle L inputBlob net")
  case (Inl what)
  then show ?thesis
    using run_inference_throws [OF Inl, of w] by (auto simp: nth_cycle_throws uncaught_def)
next
  case (Inr r)
  obtain prob net' where r: "r = (prob, net')"
    by (cases r)
  have "(10::nat) = Suc 9"
    by simp
  then have "nth_cycle L inputBlob 10 net = nth_cycle L inputBlob 9 net'"
    using Inr r by (simp only: nth_cycle.simps sum.case prod.case)
  then show ?thesis
    unfolding run_inference_unfold [OF Inr [unfolded r]] by (simp add: forward_loop_result)
qed

lemma run_inference_once_result:
  "fst (run_inference_once L net inputBlob w) = uncaught (cycle L inputBlob net)"
proof (cases "cycle L inputBlob net")
  case (Inl what)
  then show ?thesis
    using run_inference_once_throws [OF Inl, of w] by (auto simp: uncaught_def)
next
  case (Inr r)
  obtain prob net' where r: "r = (prob, net')"
    by (cases r)
  show ?thesis
    unfolding run_inference_once_unfold [OF Inr [unfolded r]] by (simp add: Inr r uncaught_def)
qed

lemma run_inference_once_world:
  "cout (snd (run_inference_once L net inputBlob w)) = cout w \<and>
   cerr (snd (run_inference_once L net inputBlob w)) = cerr w"
proof (cases "cycle L inputBlob net")
  case (Inl what)
  then show ?thesis
    using run_inference_once_throws [OF Inl, of w] by auto
next
  case (Inr r)
  obtain prob net' where r: "r = (prob, net')"
    by (cases r)
  show ?thesis
    unfolding run_inference_once_unfold [OF Inr [unfolded r]] by simp
qed

lemma run_inference_deterministic:
  assumes "deterministic L"
  shows "output_of (fst (run_inference L net inputBlob w)) =
         output_of (uncaught (cycle L inputBlob net))"
proof (cases "cycle L inputBlob net")
  case (Inl what)
  then show ?thesis
    by (simp add: run_inference_result nth_cycle_throws)
next
  case (Inr r)
  obtain prob net' where r: "r = (prob, net')"
    by (cases r)
  obtain net'' where "nth_cycle L inputBlob 10 net = Inr (prob, net'')"
    using nth_cycle_deterministic [OF assms Inr [unfolded r], of 10] by blast
  then show ?thesis
    by (simp add: run_inference_result Inr r uncaught_def output_of_def)
qed

subsection \<open>The maximum scan\<close>

lemma is_argmax_snoc_larger:
  assumes "is_argmax pre k" and "pre ! k < v"
  shows "is_argmax (pre @ [v]) (length pre)"
  unfolding is_argmax_def
proof (intro conjI allI impI)
  show "length pre < length (pre @ [v])"
    by simp
next
  fix j
  assume "j < length (pre @ [v])"
  then consider "j < length pre" | "j = length pre"
    by fastforce
  then show "(pre @ [v]) ! j \<le> (pre @ [v]) ! length pre"
  proof cases
    case 1
    then have "pre ! j \<le> pre ! k"
      using assms(1) by (simp add: is_argmax_def)
    with assms(2) 1 show ?thesis
      by (simp add: nth_append)
  next
    case 2
    then show ?thesis
      by simp
  qed
next
  fix j
  assume j: "j < length pre"
  then have "pre ! j \<le> pre ! k"
    using assms(1) by (simp add: is_argmax_def)
  with assms(2) j show "(pre @ [v]) ! j < (pre @ [v]) ! length pre"
    by (simp add: nth_append)
qed

lemma is_argmax_snoc_not_larger:
  assumes "is_argmax pre k" and "\<not> pre ! k < v"
  shows "is_argmax (pre @ [v]) k"
  unfolding is_argmax_def
proof (intro conjI allI impI)
  show "k < length (pre @ [v])"
    using assms(1) by (simp add: is_argmax_def)
next
  fix j
  assume "j < length (pre @ [v])"
  then consider "j < length pre" | "j = length pre"
    by fastforce
  then show "(pre @ [v]) ! j \<le> (pre @ [v]) ! k"
  proof cases
    case 1
    then show ?thesis
      using assms(1) by (simp add: is_argmax_def nth_append)
  next
    case 2
    then show ?thesis
      using assms by (simp add: is_argmax_def nth_append)
  qed
next
  fix j
  assume "j < k"
  then show "(pre @ [v]) ! j < (pre @ [v]) ! k"
    using assms(1) by (simp add: is_argmax_def nth_append)
qed

lemma max_scan_argmax:
  "is_argmax pre k \<Longrightarrow>
   max_scan vs (length pre) (pre ! k) k = (maxVal, x) \<Longrightarrow>
   is_argmax (pre @ vs) x \<and> maxVal = (pre @ vs) ! x"
proof (induction vs arbitrary: pre k)
  case Nil
  then show ?case
    by auto
next
  case (Cons v vs)
  show ?case
  proof (cases "pre ! k < v")
    case True
    have "is_argmax (pre @ [v]) (length pre)"
      using is_argmax_snoc_larger [OF Cons.prems(1) True] .
    moreover have "max_scan vs (length (pre @ [v])) ((pre @ [v]) ! length pre) (length pre) =
        (maxVal, x)"
      using Cons.prems(2) True by simp
    ultimately show ?thesis
      using Cons.IH [of "pre @ [v]" "length pre"] by simp
  next
    case False
    have k: "k < length pre"
      using Cons.prems(1) by (simp add: is_argmax_def)
    have "is_argmax (pre @ [v]) k"
      using is_argmax_snoc_not_larger [OF Cons.prems(1) False] .
    moreover have "max_scan vs (length (pre @ [v])) ((pre @ [v]) ! k) k = (maxVal, x)"
      using Cons.prems(2) False k by (simp add: nth_append)
    ultimately show ?thesis
      using Cons.IH [of "pre @ [v]" k] by simp
  qed
qed

lemma minMaxLoc_argmax:
  assumes "probMat \<noteq> []" and "minMaxLoc L probMat = (classProb, classId)"
  shows "\<exists>k. classId = int k \<and> is_argmax probMat k \<and> classProb = probMat ! k"
proof -
  from assms(1) obtain v vs where probMat: "probMat = v # vs"
    by (cases probMat) auto
  obtain maxVal x where scan: "max_scan vs 1 v 0 = (maxVal, x)"
    by (cases "max_scan vs 1 v 0") auto
  have "is_argmax [v] 0"
    by (simp add: is_argmax_def)
  then have "is_argmax ([v] @ vs) x \<and> maxVal = ([v] @ vs) ! x"
    using max_scan_argmax [of "[v]" 0 vs maxVal x] scan by simp
  moreover have "classProb = maxVal" and "classId = int x"
    using assms(2) scan by (simp_all add: minMaxLoc_def probMat)
  ultimately show ?thesis
    by (simp add: probMat)
qed

subsection \<open>The report\<close>

lemma read_loop_no_exception:
  assumes "read_loop fp classNames = Some y"
  shows "\<exists>names. y = Inr names"
  by (rule read_loop.raw_induct [where P = "\<lambda>fp classNames y. \<exists>names. y = Inr names", OF _ assms])
    (auto simp: substr_class_name split: if_splits prod.splits)

lemma readClassNames_missing:
  "fs filename = None \<Longrightarrow>
   readClassNames fs filename w =
     (Inl (Exit (- 1)),
      put_cerr [Str ''File with classes labels not found: '', Str filename, Endl]
        (log_call (Open_ifstream filename) w))"
  by (simp add: readClassNames_def)

lemma readClassNames_read:
  "fs filename = Some (fp, End_of_file) \<Longrightarrow>
   readClassNames fs filename w =
     (Inr (map class_name_of (filter (\<lambda>l. l \<noteq> []) (lines_of fp))),
      log_call (Open_ifstream filename) w)"
  by (simp add: readClassNames_def read_loop_lines)

lemma readClassNames_endings:
  "(\<exists>classNames. fst (readClassNames fs filename w) = Inr classNames) \<or>
   fst (readClassNames fs filename w) = Inl (Exit (- 1)) \<or>
   fst (readClassNames fs filename w) = Inl Never_returns"
proof (cases "fs filename")
  case None
  then show ?thesis
    by (simp add: readClassNames_missing)
next
  case (Some f)
  obtain cs e where f: "f = (cs, e)"
    by (cases f)
  show ?thesis
  proof (cases "read_loop (reading cs e) []")
    case None
    then show ?thesis
      using Some f by (simp add: readClassNames_def)
  next
    case (Some y)
    then obtain names where "y = Inr names"
      using read_loop_no_exception by blast
    then show ?thesis
      using Some \<open>fs filename = Some f\<close> f by (simp add: readClassNames_def)
  qed
qed

lemma readClassNames_exit_iff:
  "fst (readClassNames fs filename w) = Inl (Exit status) \<longleftrightarrow> fs filename = None \<and> status = - 1"
  by (auto simp: readClassNames_def split: option.splits sum.splits prod.splits)

lemma readClassNames_fst_world:
  "fst (readClassNames fs filename w) = fst (readClassNames fs filename w')"
  by (auto simp: readClassNames_def split: option.splits sum.splits prod.splits)

lemma readClassNames_world:
  "cout (snd (readClassNames fs filename w)) = cout w \<and>
   calls (snd (readClassNames fs filename w)) = calls w @ [Open_ifstream filename] \<and>
   cerr (snd (readClassNames fs filename w)) =
     cerr w @ (if fs filename = None
               then [Str ''File with classes labels not found: '', Str filename, Endl] else [])"
  by (auto simp: readClassNames_def split: option.splits sum.splits prod.splits)

lemma readClassNames_returned:
  "fst (readClassNames fs filename w0) = Inr classNames \<Longrightarrow>
   readClassNames fs filename w = (Inr classNames, log_call (Open_ifstream filename) w)"
  by (auto simp: readClassNames_def split: option.splits sum.splits prod.splits)

lemma readClassNames_loaded:
  assumes "fst (readClassNames fs filename w0) = Inr classNames"
  obtains fp where "fs filename = Some (fp, End_of_file)"
    and "classNames = map class_name_of (filter (\<lambda>l. l \<noteq> []) (lines_of fp))"
proof (cases "fs filename")
  case None
  then show ?thesis
    using assms by (simp add: readClassNames_missing)
next
  case (Some f)
  obtain fp e where f: "f = (fp, e)"
    by (cases f)
  show ?thesis
  proof (cases e)
    case End_of_file
    then show ?thesis
      using assms that Some f by (simp add: readClassNames_read)
  next
    case Read_error
    then show ?thesis
      using assms Some f readClassNames_read_error [of fs filename fp w0] by simp
  qed
qed

lemma report_stops:
  assumes "fst (readClassNames fs ''synset_words.txt'' w0) = Inl e"
  shows "fst (report L fs prob w) = Inl e"
proof -
  obtain classProb classId where loc: "minMaxLoc L prob = (classProb, classId)"
    by (cases "minMaxLoc L prob")
  obtain r w1 where rd: "readClassNames fs ''synset_words.txt'' w = (r, w1)"
    by (cases "readClassNames fs ''synset_words.txt'' w")
  have "r = Inl e"
    using readClassNames_fst_world [of fs "''synset_words.txt''" w w0] rd assms by simp
  then show ?thesis
    by (simp add: report_def loc rd)
qed

lemma report_missing:
  "label_file_missing fs \<Longrightarrow>
   report L fs prob w =
     (Inl (Exit (- 1)),
      put_cerr [Str ''File with classes labels not found: '', Str ''synset_words.txt'', Endl]
        (log_call (Open_ifstream ''synset_words.txt'') w))"
  by (simp add: report_def label_file_missing_def readClassNames_missing split: prod.splits)


lemma report_prints:
  assumes "fst (readClassNames fs ''synset_words.txt'' w0) = Inr classNames"
    and "minMaxLoc L prob = (classProb, int k)"
    and "k < length classNames"
  shows "report L fs prob w =
     (Inr (),
      put_cout
        [Str (classNames ! k), Str [CHR 0x27], Endl,
         Str ''Probability: '', Dbl_item (classProb * 100), Str ''%'', Endl]
        (put_cout [Str ''Best class: #'', Int_item (int k), Str [CHR '' '', CHR 0x27]]
           (log_call (Open_ifstream ''synset_words.txt'') w)))"
proof -
  have "vector_at classNames (int k) = Inr (classNames ! k)"
    using assms(3) by (simp add: vector_at_def)
  then show ?thesis
    using assms(2) by (simp add: report_def readClassNames_returned [OF assms(1)])
qed

lemma report_exit_iff:
  "fst (report L fs prob w) = Inl (Exit status) \<longleftrightarrow> label_file_missing fs \<and> status = - 1"
proof -
  obtain classProb classId where loc: "minMaxLoc L prob = (classProb, classId)"
    by (cases "minMaxLoc L prob")
  obtain r w1 where rd: "readClassNames fs ''synset_words.txt'' w = (r, w1)"
    by (cases "readClassNames fs ''synset_words.txt'' w")
  have "r = Inl (Exit status) \<longleftrightarrow> label_file_missing fs \<and> status = - 1"
    using readClassNames_exit_iff [of fs "''synset_words.txt''" w status] rd
    by (simp add: label_file_missing_def)
  then show ?thesis
    by (cases r) (auto simp: report_def loc rd Let_def split: sum.splits)
qed

lemma report_returns_iff:
  "fst (report L fs prob w) = Inr () \<longleftrightarrow>
     (\<exists>classNames. fst (readClassNames fs ''synset_words.txt'' w) = Inr classNames \<and>
        0 \<le> snd (minMaxLoc L prob) \<and> snd (minMaxLoc L prob) < int (length classNames))"
proof -
  obtain classProb classId where loc: "minMaxLoc L prob = (classProb, classId)"
    by (cases "minMaxLoc L prob")
  obtain r w1 where rd: "readClassNames fs ''synset_words.txt'' w = (r, w1)"
    by (cases "readClassNames fs ''synset_words.txt'' w")
  show ?thesis
    by (cases r) (auto simp: report_def loc rd Let_def vector_at_def split: sum.splits)
qed

lemma report_fst_world: "fst (report L fs prob w) = fst (report L fs prob w')"
proof -
  obtain classProb classId where loc: "minMaxLoc L prob = (classProb, classId)"
    by (cases "minMaxLoc L prob")
  obtain r w1 where rd: "readClassNames fs ''synset_words.txt'' w = (r, w1)"
    by (cases "readClassNames fs ''synset_words.txt'' w")
  obtain r' w1' where rd': "readClassNames fs ''synset_words.txt'' w' = (r', w1')"
    by (cases "readClassNames fs ''synset_words.txt'' w'")
  have "r' = r"
    using readClassNames_fst_world [of fs "''synset_words.txt''" w w'] rd rd' by simp
  then show ?thesis
    by (cases r) (auto simp: report_def loc rd rd' Let_def split: sum.splits)
qed

lemma report_cout_world:
  assumes "cout w = cout w'"
  shows "cout (snd (report L fs prob w)) = cout (snd (report L fs prob w'))"
proof -
  obtain classProb classId where loc: "minMaxLoc L prob = (classProb, classId)"
    by (cases "minMaxLoc L prob")
  obtain r w1 where rd: "readClassNames fs ''synset_words.txt'' w = (r, w1)"
    by (cases "readClassNames fs ''synset_words.txt'' w")
  obtain r' w1' where rd': "readClassNames fs ''synset_words.txt'' w' = (r', w1')"
    by (cases "readClassNames fs ''synset_words.txt'' w'")
  have "r' = r"
    using readClassNames_fst_world [of fs "''synset_words.txt''" w w'] rd rd' by simp
  moreover have "cout w1 = cout w"
    using readClassNames_world [of fs "''synset_words.txt''" w] rd by simp
  moreover have "cout w1' = cout w'"
    using readClassNames_world [of fs "''synset_words.txt''" w'] rd' by simp
  ultimately show ?thesis
    using assms by (cases r) (auto simp: report_def loc rd rd' Let_def split: sum.splits)
qed

lemma report_cerr_world:
  "cerr (snd (report L fs prob w)) =
     cerr w @ (if label_file_missing fs
               then [Str ''File with classes labels not found: '', Str ''synset_words.txt'', Endl]
               else [])"
proof -
  obtain classProb classId where loc: "minMaxLoc L prob = (classProb, classId)"
    by (cases "minMaxLoc L prob")
  obtain r w1 where rd: "readClassNames fs ''synset_words.txt'' w = (r, w1)"
    by (cases "readClassNames fs ''synset_words.txt'' w")
  have "cerr w1 =
      cerr w @ (if label_file_missing fs
                then [Str ''File with classes labels not found: '', Str ''synset_words.txt'', Endl]
                else [])"
    using readClassNames_world [of fs "''synset_words.txt''" w] rd
    by (simp add: label_file_missing_def)
  then show ?thesis
    by (cases r) (auto simp: report_def loc rd Let_def split: sum.splits)
qed

lemma report_calls:
  "calls (snd (report L fs prob w)) = calls w @ [Open_ifstream ''synset_words.txt'']"
proof -
  obtain classProb classId where loc: "minMaxLoc L prob = (classProb, classId)"
    by (cases "minMaxLoc L prob")
  obtain r w1 where rd: "readClassNames fs ''synset_words.txt'' w = (r, w1)"
    by (cases "readClassNames fs ''synset_words.txt'' w")
  have "calls w1 = calls w @ [Open_ifstream ''synset_words.txt'']"
    using readClassNames_world [of fs "''synset_words.txt''" w] rd by simp
  then show ?thesis
    by (cases r) (auto simp: report_def loc rd Let_def split: sum.splits)
qed

subsection \<open>doDnn from its stages\<close>

lemma doDnn_stops:
  "model_load_fails L argv \<or> image_unreadable L argv \<Longrightarrow>
   doDnn L fs argv w = (Inl (Exit (- 1)), snd (prepare L argv w))"
  using prepare_fails [of L argv w]
  by (cases "prepare L argv w") (simp add: doDnn_def)

lemma doDnn_throws:
  "prepare L argv w = (Inr (net, inputBlob), w1) \<Longrightarrow>
   fst (run_inference L net inputBlob w1) = Inl e \<Longrightarrow>
   doDnn L fs argv w = (Inl e, snd (run_inference L net inputBlob w1))"
  by (cases "run_inference L net inputBlob w1") (simp add: doDnn_def)

lemma doDnn_reports:
  "prepare L argv w = (Inr (net, inputBlob), w1) \<Longrightarrow>
   fst (run_inference L net inputBlob w1) = Inr (prob, net') \<Longrightarrow>
   doDnn L fs argv w = report L fs prob (snd (run_inference L net inputBlob w1))"
  by (cases "run_inference L net inputBlob w1") (simp add: doDnn_def)

lemma doDnn_once_stops:
  "model_load_fails L argv \<or> image_unreadable L argv \<Longrightarrow>
   doDnn_once L fs argv w = (Inl (Exit (- 1)), snd (prepare L argv w))"
  using prepare_fails [of L argv w]
  by (cases "prepare L argv w") (simp add: doDnn_once_def)

lemma doDnn_once_throws:
  "prepare L argv w = (Inr (net, inputBlob), w1) \<Longrightarrow>
   fst (run_inference_once L net inputBlob w1) = Inl e \<Longrightarrow>
   doDnn_once L fs argv w = (Inl e, snd (run_inference_once L net inputBlob w1))"
  by (cases "run_inference_once L net inputBlob w1") (simp add: doDnn_once_def)

lemma doDnn_once_reports:
  "prepare L argv w = (Inr (net, inputBlob), w1) \<Longrightarrow>
   fst (run_inference_once L net inputBlob w1) = Inr (prob, net') \<Longrightarrow>
   doDnn_once L fs argv w = report L fs prob (snd (run_inference_once L net inputBlob w1))"
  by (cases "run_inference_once L net inputBlob w1") (simp add: doDnn_once_def)

lemma prepare_reaches_inference:
  assumes "\<not> model_load_fails L argv" and "\<not> image_unreadable L argv"
  obtains net w1 where
    "prepare L argv w =
       (Inr (net, blobFromImage L (imread L (opt_image (commandLineParser L argv))) 1 (224, 224)
                    (Scalar 104 117 123 0) False), w1)"
  using prepare_succeeds [OF assms, of w] by (cases "prepare L argv w") auto

lemma main_endings:
  "fst (main L fs argv w) =
     (case fst (doDnn L fs argv w) of Inl e \<Rightarrow> e | Inr u \<Rightarrow> Exit 0)"
  by (simp add: main_def split: prod.splits sum.splits)

lemma main_world: "snd (main L fs argv w) = snd (doDnn L fs argv w)"
  by (simp add: main_def split: prod.splits sum.splits)

lemma prepare_blob:
  "prepare L argv w = (Inr (net, inputBlob), w1) \<Longrightarrow>
   \<not> model_load_fails L argv \<and> \<not> image_unreadable L argv \<and>
   inputBlob = blobFromImage L (imread L (opt_image (commandLineParser L argv))) 1 (224, 224)
                 (Scalar 104 117 123 0) False"
  using prepare_fails [of L argv w] prepare_succeeds [of L argv w] by auto

lemma prepare_net:
  "prepare L argv w = (Inr (net, inputBlob), w1) \<Longrightarrow>
   net =
     (let loaded =
            (case readNetFromCaffe L (opt_proto (commandLineParser L argv))
                    (opt_model (commandLineParser L argv)) of
               Inl what \<Rightarrow> net_default L
             | Inr net' \<Rightarrow> net')
      in if opt_opencl (commandLineParser L argv)
         then setPreferableTarget L loaded DNN_TARGET_OPENCL else loaded)"
  by (auto simp: prepare_def load_model_def Let_def split: sum.splits prod.splits if_splits)

lemma prepare_passes:
  assumes "\<not> model_load_fails L argv" and "\<not> image_unreadable L argv"
  obtains w1 where "prepare L argv w = (Inr (loaded_net L argv, input_tensor L argv), w1)"
proof -
  obtain net w1 where prep: "prepare L argv w = (Inr (net, input_tensor L argv), w1)"
    using prepare_reaches_inference [OF assms, of w] unfolding input_tensor_def by auto
  have "net = loaded_net L argv"
    using prepare_net [OF prep] by (simp add: loaded_net_def)
  with prep that show ?thesis
    by simp
qed

lemma doDnn_passes:
  assumes "prepare L argv w = (Inr (loaded_net L argv, input_tensor L argv), w1)"
  shows "fst (run_inference L (loaded_net L argv) (input_tensor L argv) w1) =
         uncaught (forward_passes L argv)"
  by (simp add: run_inference_result forward_passes_def)

lemma doDnn_blob_calls:
  "blob_calls (calls (snd (doDnn L fs argv w))) = blob_calls (calls (snd (prepare L argv w)))"
proof (cases "model_load_fails L argv \<or> image_unreadable L argv")
  case True
  then show ?thesis
    by (simp add: doDnn_stops)
next
  case False
  then obtain net inputBlob w1 where prep: "prepare L argv w = (Inr (net, inputBlob), w1)"
    using prepare_reaches_inference [of L argv w] by blast
  obtain cs where cs: "calls (snd (run_inference L net inputBlob w1)) = calls w1 @ cs"
    "set cs \<subseteq> {SetInput inputBlob ''data'', Forward ''prob''}"
    using run_inference_world [of L net inputBlob w1] by blast
  have none: "blob_calls cs = []"
    using cs(2) by (rule blob_calls_cycle_calls)
  show ?thesis
  proof (cases "fst (run_inference L net inputBlob w1)")
    case (Inl e)
    show ?thesis
      unfolding doDnn_throws [OF prep Inl] using cs(1) none prep
      by (simp add: blob_calls_append)
  next
    case (Inr r)
    obtain prob net' where r: "r = (prob, net')"
      by (cases r)
    show ?thesis
      unfolding doDnn_reports [OF prep Inr [unfolded r]] using cs(1) none prep
      by (simp add: report_calls blob_calls_append)
  qed
qed

lemma doDnn_returned_calls:
  assumes "prepare L argv w = (Inr (net, inputBlob), w1)"
    and "fst (run_inference L net inputBlob w1) = Inr (prob, net')"
  shows "calls (snd (doDnn L fs argv w)) =
           calls w1 @ concat (replicate 11 [SetInput inputBlob ''data'', Forward ''prob'']) @
           [Open_ifstream ''synset_words.txt'']"
  unfolding doDnn_reports [OF assms]
  by (simp add: report_calls run_inference_returned_calls [OF assms(2)])

lemma doDnn_thrown_calls:
  assumes "prepare L argv w = (Inr (net, inputBlob), w1)"
    and "fst (run_inference L net inputBlob w1) = Inl e"
  shows "\<exists>cs. calls (snd (doDnn L fs argv w)) = calls w1 @ cs \<and>
              set cs \<subseteq> {SetInput inputBlob ''data'', Forward ''prob''}"
  unfolding doDnn_throws [OF assms]
  using run_inference_world [of L net inputBlob w1] by simp

section \<open>The stand-in library, evaluated\<close>

text \<open>
  The runs of the program on the stand-in library, used to instantiate the general
  statements, a network whose forward pass throws, and a network that is not
  deterministic, on which the eleven cycles and the single cycle return different outputs.
\<close>

lemma demo_lib_fields [simp]:
  "commandLineParser (demo_lib opts) argv = opts"
  "readNetFromCaffe (demo_lib opts) modelTxt modelBin =
     (if modelBin = ''bvlc_googlenet.caffemodel'' then Inr 1 else Inl ''cannot open'')"
  "net_default (demo_lib opts) = 0"
  "net_empty (demo_lib opts) net \<longleftrightarrow> net = 0"
  "setPreferableTarget (demo_lib opts) net t = net"
  "imread (demo_lib opts) file = (if file = ''space_shuttle.jpg'' then [7, 7, 7] else [])"
  "img_empty (demo_lib opts) img \<longleftrightarrow> img = []"
  "blobFromImage (demo_lib opts) img scale sz mean swapRB = img"
  "setInput (demo_lib opts) net blob name = Inr net"
  "forward (demo_lib opts) net name = Inr ([1 / 10, 7 / 10, 1 / 5], net)"
  "minMaxLoc_empty (demo_lib opts) = (0, - 1)"
  by (simp_all add: demo_lib_def)

lemma tolerant_lib_fields [simp]:
  "commandLineParser (tolerant_lib opts) argv = opts"
  "readNetFromCaffe (tolerant_lib opts) modelTxt modelBin =
     (if modelBin = ''bvlc_googlenet.caffemodel'' then Inr 1 else Inl ''cannot open'')"
  "net_default (tolerant_lib opts) = 2"
  "net_empty (tolerant_lib opts) net \<longleftrightarrow> net = 0"
  "setPreferableTarget (tolerant_lib opts) net t = net"
  "imread (tolerant_lib opts) file = (if file = ''space_shuttle.jpg'' then [7, 7, 7] else [])"
  "img_empty (tolerant_lib opts) img \<longleftrightarrow> img = []"
  by (simp_all add: tolerant_lib_def demo_lib_def)

lemma throwing_lib_fields [simp]:
  "commandLineParser (throwing_lib opts) argv = opts"
  "readNetFromCaffe (throwing_lib opts) modelTxt modelBin =
     (if modelBin = ''bvlc_googlenet.caffemodel'' then Inr 1 else Inl ''cannot open'')"
  "net_default (throwing_lib opts) = 0"
  "net_empty (throwing_lib opts) net \<longleftrightarrow> net = 0"
  "setPreferableTarget (throwing_lib opts) net t = net"
  "imread (throwing_lib opts) file = (if file = ''space_shuttle.jpg'' then [7, 7, 7] else [])"
  "img_empty (throwing_lib opts) img \<longleftrightarrow> img = []"
  "blobFromImage (throwing_lib opts) img scale sz mean swapRB = img"
  "setInput (throwing_lib opts) net blob name = Inr net"
  "forward (throwing_lib opts) net name = Inl ''no layer prob''"
  by (simp_all add: throwing_lib_def demo_lib_def)

lemma options_fields [simp]:
  "opt_help default_options = False"
  "opt_proto default_options = ''bvlc_googlenet.prototxt''"
  "opt_model default_options = ''bvlc_googlenet.caffemodel''"
  "opt_image default_options = ''space_shuttle.jpg''"
  "opt_opencl default_options = False"
  "opt_help other_model = False"
  "opt_proto other_model = ''bvlc_googlenet.prototxt''"
  "opt_model other_model = ''other.caffemodel''"
  "opt_image other_model = ''space_shuttle.jpg''"
  "opt_opencl other_model = False"
  "opt_help other_image = False"
  "opt_proto other_image = ''bvlc_googlenet.prototxt''"
  "opt_model other_image = ''bvlc_googlenet.caffemodel''"
  "opt_opencl other_image = False"
  "opt_image other_image = ''other.jpg''"
  by (simp_all add: default_options_def other_model_def other_image_def)

lemma demo_failures [simp]:
  "\<not> model_load_fails (demo_lib default_options) argv"
  "\<not> image_unreadable (demo_lib default_options) argv"
  "model_load_fails (demo_lib other_model) argv"
  "\<not> model_load_fails (tolerant_lib other_model) argv"
  "\<not> image_unreadable (tolerant_lib other_model) argv"
  "\<not> model_load_fails (demo_lib other_image) argv"
  "image_unreadable (demo_lib other_image) argv"
  "\<not> model_load_fails (throwing_lib default_options) argv"
  "\<not> image_unreadable (throwing_lib default_options) argv"
  by (simp_all add: model_load_fails_def image_unreadable_def)

lemma demo_files [simp]:
  "label_file_missing no_files"
  "\<not> label_file_missing demo_fs"
  "\<not> label_file_missing short_fs"
  "\<not> label_file_missing directory_fs"
  by (simp_all add: label_file_missing_def no_files_def demo_fs_def short_fs_def
      directory_fs_def)

lemma empty_world_fields [simp]:
  "cout empty_world = []" "cerr empty_world = []" "calls empty_world = []"
  by (simp_all add: empty_world_def)

lemma demo_prepare:
  "prepare (demo_lib default_options) argv w =
     (Inr (1, [7, 7, 7]),
      log_call (BlobFromImage [7, 7, 7] 1 (224, 224) (Scalar 104 117 123 0) False)
        (log_call (Imread ''space_shuttle.jpg'')
           (log_call (ReadNetFromCaffe ''bvlc_googlenet.prototxt'' ''bvlc_googlenet.caffemodel'')
              w)))"
  by (simp add: prepare_def load_model_def Let_def)

lemma throwing_prepare:
  "prepare (throwing_lib default_options) argv w =
     (Inr (1, [7, 7, 7]),
      log_call (BlobFromImage [7, 7, 7] 1 (224, 224) (Scalar 104 117 123 0) False)
        (log_call (Imread ''space_shuttle.jpg'')
           (log_call (ReadNetFromCaffe ''bvlc_googlenet.prototxt'' ''bvlc_googlenet.caffemodel'')
              w)))"
  by (simp add: prepare_def load_model_def Let_def)

lemma demo_cycle: "cycle (demo_lib opts) inputBlob net = Inr ([1 / 10, 7 / 10, 1 / 5], net)"
  by (simp add: cycle_def)

lemma demo_nth_cycle:
  "nth_cycle (demo_lib opts) inputBlob n net = Inr ([1 / 10, 7 / 10, 1 / 5], net)"
  by (induction n) (simp_all add: demo_cycle)

lemma demo_passes:
  "forward_passes (demo_lib opts) argv = Inr ([1 / 10, 7 / 10, 1 / 5], loaded_net (demo_lib opts) argv)"
  by (simp add: forward_passes_def demo_nth_cycle)

lemma demo_deterministic: "deterministic (demo_lib opts)"
  by (simp add: deterministic_def demo_cycle)

lemma demo_inference:
  "fst (run_inference (demo_lib opts) net inputBlob w) = Inr ([1 / 10, 7 / 10, 1 / 5], net)"
  by (simp add: run_inference_result demo_nth_cycle uncaught_def)

lemma throwing_cycle: "cycle (throwing_lib opts) inputBlob net = Inl ''no layer prob''"
  by (simp add: cycle_def)

lemma throwing_passes: "forward_passes (throwing_lib opts) argv = Inl ''no layer prob''"
  by (simp add: forward_passes_def nth_cycle_throws throwing_cycle)

lemma throwing_inference:
  "fst (run_inference (throwing_lib opts) net inputBlob w) =
     Inl (Uncaught (Cv_exception ''no layer prob''))"
  by (simp add: run_inference_result nth_cycle_throws throwing_cycle uncaught_def)

lemma demo_minMaxLoc: "minMaxLoc (demo_lib opts) [1 / 10, 7 / 10, 1 / 5] = (7 / 10, 1)"
  by (simp add: minMaxLoc_def)

lemma demo_lines:
  "lines_of (file_of_lines [''n01 tench'', ''n02 space shuttle'', ''n03 goldfish''] True) =
     [''n01 tench'', ''n02 space shuttle'', ''n03 goldfish'']"
  by (rule lines_of_file_of_lines_final) (simp add: line_feed_def)

lemma demo_names:
  "map class_name_of
     (filter (\<lambda>l. l \<noteq> []) [''n01 tench'', ''n02 space shuttle'', ''n03 goldfish'']) =
     [''tench'', ''space shuttle'', ''goldfish'']"
proof -
  have "well_formed_line ''n01 tench''" "well_formed_line ''n02 space shuttle''"
    "well_formed_line ''n03 goldfish''"
    by (simp_all add: well_formed_line_def line_feed_def)
  then show ?thesis
    by (simp add: class_name_of_well_formed after_first_space_def)
qed

lemma demo_file:
  "demo_fs ''synset_words.txt'' =
     Some (file_of_lines [''n01 tench'', ''n02 space shuttle'', ''n03 goldfish''] True,
           End_of_file)"
  by (simp add: demo_fs_def)

lemma demo_labels:
  "fst (readClassNames demo_fs ''synset_words.txt'' w) =
     Inr [''tench'', ''space shuttle'', ''goldfish'']"
  unfolding readClassNames_read [where fs = demo_fs, OF demo_file] demo_lines demo_names
  by simp


lemma demo_report:
  "report (demo_lib default_options) demo_fs [1 / 10, 7 / 10, 1 / 5] w =
     (Inr (),
      put_cout
        [Str ''space shuttle'', Str [CHR 0x27], Endl,
         Str ''Probability: '', Dbl_item 70, Str ''%'', Endl]
        (put_cout [Str ''Best class: #'', Int_item 1, Str [CHR '' '', CHR 0x27]]
           (log_call (Open_ifstream ''synset_words.txt'') w)))"
proof -
  have best: "minMaxLoc (demo_lib default_options) [1 / 10, 7 / 10, 1 / 5] = (7 / 10, int 1)"
    by (simp add: demo_minMaxLoc)
  show ?thesis
    using report_prints [where fs = demo_fs and w = w and ?w0.0 = w, OF demo_labels best]
    by simp
qed

lemma demo_run_returns:
  "fst (doDnn (demo_lib default_options) demo_fs [] empty_world) = Inr ()"
  by (simp add: doDnn_reports [OF demo_prepare demo_inference] demo_report)

lemma counting_cycle:
  "cycle (counting_lib opts) inputBlob net =
     Inr (if net < 5 then [9 / 10, 1 / 10] else [1 / 10, 9 / 10], Suc net)"
  by (simp add: cycle_def counting_lib_def demo_lib_def)

lemma counting_nth_cycle:
  "nth_cycle (counting_lib opts) inputBlob n net =
     Inr (if net + n < 5 then [9 / 10, 1 / 10] else [1 / 10, 9 / 10], Suc (net + n))"
  by (induction n arbitrary: net) (simp_all add: counting_cycle)

lemma counting_lib_not_deterministic: "\<not> deterministic (counting_lib opts)"
proof
  assume "deterministic (counting_lib opts)"
  moreover have "cycle (counting_lib opts) [] 4 = Inr ([9 / 10, 1 / 10], 5)"
    by (simp add: counting_cycle)
  ultimately have "\<exists>net''. cycle (counting_lib opts) [] 5 = Inr ([9 / 10, 1 / 10], net'')"
    unfolding deterministic_def by blast
  then show False
    by (simp add: counting_cycle)
qed

lemma counting_lib_repetition_observable:
  "fst (run_inference (counting_lib opts) 0 inputBlob w) = Inr ([1 / 10, 9 / 10], 11) \<and>
   fst (run_inference_once (counting_lib opts) 0 inputBlob w) = Inr ([9 / 10, 1 / 10], 1)"
  by (simp add: run_inference_result run_inference_once_result counting_nth_cycle
      counting_cycle uncaught_def)

text \<open>
  A label file that opens and whose reads fail: the loop of \<^verbatim>\<open>readClassNames\<close> does not
  end, and neither does the run.
\<close>

lemma unreadable_label_file:
  "fst (main (demo_lib default_options) directory_fs [] empty_world) = Never_returns"
proof -
  have "directory_fs ''synset_words.txt'' = Some ([], Read_error)"
    by (simp add: directory_fs_def)
  then have "fst (readClassNames directory_fs ''synset_words.txt'' w) = Inl Never_returns"
    for w :: "(nat list, nat list, real) world"
    by (rule readClassNames_read_error)
  then have "fst (report (demo_lib default_options) directory_fs prob w) = Inl Never_returns"
    for prob and w :: "(nat list, nat list, real) world"
    by (rule report_stops)
  then show ?thesis
    by (simp add: main_endings doDnn_reports [OF demo_prepare demo_inference])
qed

section \<open>The label loader\<close>

text \<open>
  Claim C2 says that a non-empty line without a space is appended with its first
  character removed. The code does otherwise: \<^verbatim>\<open>find\<close> returns \<^verbatim>\<open>npos\<close>, \<^verbatim>\<open>npos + 1\<close> wraps
  to 0, and \<^verbatim>\<open>substr(0)\<close> is the whole line. Here the file holds the single line "tench":
  the label list is ["tench"], not ["ench"].
\<close>

theorem first_character_removed_counterexample:
  "''tench'' \<noteq> [] \<and> CHR '' '' \<notin> set ''tench'' \<and>
   fst (readClassNames (\<lambda>filename. Some (''tench'', End_of_file)) ''synset_words.txt''
          (empty_world :: (nat list, nat list, real) world)) = Inr [''tench''] \<and>
   [''tench''] \<noteq> [tl ''tench'']"
proof -
  have "lines_of ''tench'' = [''tench'']"
    by (rule lines_of_last_line) (simp_all add: line_feed_def)
  moreover have "class_name_of ''tench'' = ''tench''"
    by (rule class_name_of_no_space) simp
  ultimately show ?thesis
    using readClassNames_opened [of "\<lambda>filename. Some (''tench'', End_of_file)"
        "''synset_words.txt''" "''tench''" "empty_world :: (nat list, nat list, real) world"]
    by simp
qed

text \<open>
  Claim C2, as amended: for every non-empty label-file line that contains no space
  character, the label loader appends that line unchanged, whether the line ends with a
  line feed (the loop goes on with the rest of the file) or is the last of the file.
\<close>

theorem readClassNames_line_without_space:
  assumes "name \<noteq> []" and "CHR '' '' \<notin> set name" and "line_feed \<notin> set name"
  shows "read_loop (reading (name @ line_feed # fp) e) classNames =
           read_loop (reading fp e) (classNames @ [name]) \<and>
         read_loop (reading name End_of_file) classNames = Some (Inr (classNames @ [name]))"
proof -
  have "read_loop (reading (name @ line_feed # fp) e) classNames =
      read_loop (reading fp e) (classNames @ [name])"
    using read_loop_reading [OF assms(3), of fp e classNames] assms(1)
    by (simp add: class_name_of_no_space [OF assms(2)])
  moreover have "read_loop (reading name End_of_file) classNames =
      Some (Inr (classNames @ [name]))"
    using read_loop_last_line [OF assms(3), of classNames] assms(1)
    by (simp add: class_name_of_no_space [OF assms(2)])
  ultimately show ?thesis
    by simp
qed

theorem readClassNames_line_without_space_witness:
  "read_loop (reading (''tench'' @ line_feed # ''n02 goldfish'') End_of_file) [] =
     read_loop (reading ''n02 goldfish'' End_of_file) [''tench''] \<and>
   read_loop (reading ''tench'' End_of_file) [] = Some (Inr [''tench''])"
  using readClassNames_line_without_space [of "''tench''" "''n02 goldfish''" End_of_file "[]"]
  by (simp add: line_feed_def)

text \<open>
  Claim C6: for every label file consisting of N well-formed lines (each of the form
  "<id><space><label>"), with or without a line feed after the last one, that opens and
  is read to its end, the loaded label list has exactly N entries, in file order, and
  each entry equals the substring of its line after the first space character.
\<close>

theorem readClassNames_well_formed_file:
  assumes "\<forall>l \<in> set ls. well_formed_line l"
    and "fs filename = Some (file_of_lines ls final, End_of_file)"
  shows "\<exists>classNames.
           fst (readClassNames fs filename w) = Inr classNames \<and>
           length classNames = length ls \<and>
           (\<forall>i < length ls. classNames ! i = after_first_space (ls ! i))"
proof -
  have "\<forall>l \<in> set ls. line_feed \<notin> set l \<and> l \<noteq> []"
    using assms(1) well_formed_line_nonempty by blast
  then have lines: "lines_of (file_of_lines ls final) = ls"
    by (rule lines_of_file_of_lines)
  have "filter (\<lambda>l. l \<noteq> []) ls = ls"
    using assms(1) well_formed_line_nonempty by (simp add: filter_id_conv)
  moreover have "map class_name_of ls = map after_first_space ls"
    using assms(1) class_name_of_well_formed by simp
  ultimately have "fst (readClassNames fs filename w) = Inr (map after_first_space ls)"
    using readClassNames_opened [of fs filename "file_of_lines ls final" w] assms(2)
    by (simp add: lines)
  then show ?thesis
    by simp
qed

theorem readClassNames_well_formed_file_witness:
  "fst (readClassNames demo_fs ''synset_words.txt''
          (empty_world :: (nat list, nat list, real) world)) =
     Inr [''tench'', ''space shuttle'', ''goldfish'']"
proof -
  let ?ls = "[''n01 tench'', ''n02 space shuttle'', ''n03 goldfish'']"
  let ?w = "empty_world :: (nat list, nat list, real) world"
  have wf: "\<forall>l \<in> set ?ls. well_formed_line l"
    by (simp add: well_formed_line_def line_feed_def)
  have fs: "demo_fs ''synset_words.txt'' = Some (file_of_lines ?ls True, End_of_file)"
    by (simp add: demo_fs_def)
  obtain classNames where
    res: "fst (readClassNames demo_fs ''synset_words.txt'' ?w) = Inr classNames" and
    len: "length classNames = length ?ls" and
    nth: "\<forall>i < length ?ls. classNames ! i = after_first_space (?ls ! i)"
    using readClassNames_well_formed_file [of ?ls demo_fs "''synset_words.txt''" True ?w] wf fs
    by blast
  have "classNames = map after_first_space ?ls"
  proof (rule nth_equalityI)
    show "length classNames = length (map after_first_space ?ls)"
      using len by simp
  next
    fix i
    assume "i < length classNames"
    then have i: "i < length ?ls"
      using len by simp
    then have "classNames ! i = after_first_space (?ls ! i)"
      using nth by blast
    then show "classNames ! i = map after_first_space ?ls ! i"
      using nth_map [OF i, of after_first_space] by simp
  qed
  then have "classNames = [''tench'', ''space shuttle'', ''goldfish'']"
    by (simp add: after_first_space_def)
  with res show ?thesis
    by simp
qed

text \<open>
  Claim C10: for every label file that opens and is read to its end, the label loader
  skips the lines of length zero. The returned list has one entry for each non-empty
  line, in order, so the index of a line's entry is its line number minus the number of
  blank lines before it: its rank among the non-empty lines. Each blank line shifts every
  later index down by one.
\<close>

theorem readClassNames_skips_blank_lines:
  assumes "fs filename = Some (fp, End_of_file)"
  shows "\<exists>classNames.
           fst (readClassNames fs filename w) = Inr classNames \<and>
           classNames = map class_name_of (filter (\<lambda>l. l \<noteq> []) (lines_of fp)) \<and>
           length classNames = length (filter (\<lambda>l. l \<noteq> []) (lines_of fp)) \<and>
           (\<forall>i < length (lines_of fp). lines_of fp ! i \<noteq> [] \<longrightarrow>
              i - blank_before (lines_of fp) i < length classNames \<and>
              classNames ! (i - blank_before (lines_of fp) i) = class_name_of (lines_of fp ! i))"
proof -
  let ?ls = "lines_of fp"
  let ?ne = "filter (\<lambda>l. l \<noteq> []) ?ls"
  have nth: "i - blank_before ?ls i < length ?ne \<and>
             ?ne ! (i - blank_before ?ls i) = ?ls ! i"
    if i: "i < length ?ls" and ne: "?ls ! i \<noteq> []" for i
  proof -
    have "length (filter (\<lambda>l. l \<noteq> []) (take i ?ls)) < length ?ne"
      using filter_rank_less [of i ?ls "\<lambda>l. l \<noteq> []"] i ne by simp
    moreover have "?ne ! length (filter (\<lambda>l. l \<noteq> []) (take i ?ls)) = ?ls ! i"
      using filter_rank_nth [of i ?ls "\<lambda>l. l \<noteq> []"] i ne by simp
    ultimately show ?thesis
      by (simp add: rank_blank_before [OF i])
  qed
  show ?thesis
    using readClassNames_opened [of fs filename fp w] assms nth by simp
qed

theorem readClassNames_skips_blank_lines_witness:
  "fst (readClassNames blank_fs ''synset_words.txt''
          (empty_world :: (nat list, nat list, real) world)) =
     Inr [''tench'', ''space shuttle''] \<and>
   blank_before [''n01 tench'', [], ''n02 space shuttle''] 2 = 1 \<and>
   [''tench'', ''space shuttle''] ! (2 - 1) = class_name_of ''n02 space shuttle''"
proof -
  let ?fp = "file_of_lines [''n01 tench'', [], ''n02 space shuttle''] True"
  let ?w = "empty_world :: (nat list, nat list, real) world"
  have fs: "blank_fs ''synset_words.txt'' = Some (?fp, End_of_file)"
    by (simp add: blank_fs_def)
  obtain classNames where
    res: "fst (readClassNames blank_fs ''synset_words.txt'' ?w) = Inr classNames" and
    eq: "classNames = map class_name_of (filter (\<lambda>l. l \<noteq> []) (lines_of ?fp))" and
    idx: "\<forall>i < length (lines_of ?fp). lines_of ?fp ! i \<noteq> [] \<longrightarrow>
            i - blank_before (lines_of ?fp) i < length classNames \<and>
            classNames ! (i - blank_before (lines_of ?fp) i) = class_name_of (lines_of ?fp ! i)"
    using readClassNames_skips_blank_lines [of blank_fs "''synset_words.txt''" ?fp ?w] fs
    by blast
  have names: "classNames = [''tench'', ''space shuttle'']"
    unfolding eq lines_of_blank_file by (simp add: class_name_tench class_name_shuttle)
  have blank: "blank_before [''n01 tench'', [], ''n02 space shuttle''] 2 = 1"
    by (simp add: blank_before_def numeral_2_eq_2)
  have "classNames ! (2 - blank_before (lines_of ?fp) 2) = class_name_of (lines_of ?fp ! 2)"
    using idx [rule_format, of 2] unfolding lines_of_blank_file by simp
  then have "[''tench'', ''space shuttle''] ! (2 - 1) = class_name_of ''n02 space shuttle''"
    unfolding lines_of_blank_file blank names by simp
  with res names blank show ?thesis
    by simp
qed

section \<open>The order of the steps and the exit status\<close>

text \<open>
  Claim C1 says that a missing label file ends the run before the model is loaded and
  before any forward pass, with a message that names the file. The code reads the label
  file last (line 151). In the first run below the label file is missing and everything
  else is there: the model is loaded, the tensor is built and the eleven forward passes
  are made before the file is opened. In the second run the model is missing as well: the
  run ends on the model, and nothing on stderr names the label file.
\<close>

theorem label_file_first_counterexample:
  "label_file_missing no_files \<and>
   calls (snd (main (demo_lib default_options) no_files [] empty_world)) =
     [ReadNetFromCaffe ''bvlc_googlenet.prototxt'' ''bvlc_googlenet.caffemodel'',
      Imread ''space_shuttle.jpg'',
      BlobFromImage [7, 7, 7] 1 (224, 224) (Scalar 104 117 123 0) False] @
     concat (replicate 11 [SetInput [7, 7, 7] ''data'', Forward ''prob'']) @
     [Open_ifstream ''synset_words.txt''] \<and>
   cerr (snd (main (demo_lib other_model) no_files [] empty_world)) =
     [Str ''Exception: '', Str ''cannot open'', Endl,
      Str ''Can't load network by using the following files: '', Endl,
      Str ''prototxt:   '', Str ''bvlc_googlenet.prototxt'', Endl,
      Str ''caffemodel: '', Str ''other.caffemodel'', Endl,
      Str ''bvlc_googlenet.caffemodel can be downloaded here:'', Endl,
      Str ''http://dl.caffe.berkeleyvision.org/bvlc_googlenet.caffemodel'', Endl]"
proof -
  have "calls (snd (main (demo_lib default_options) no_files [] empty_world)) =
      [ReadNetFromCaffe ''bvlc_googlenet.prototxt'' ''bvlc_googlenet.caffemodel'',
       Imread ''space_shuttle.jpg'',
       BlobFromImage [7, 7, 7] 1 (224, 224) (Scalar 104 117 123 0) False] @
      concat (replicate 11 [SetInput [7, 7, 7] ''data'', Forward ''prob'']) @
      [Open_ifstream ''synset_words.txt'']"
    by (simp add: main_world doDnn_returned_calls [OF demo_prepare demo_inference])
  moreover have "cerr (snd (main (demo_lib other_model) no_files [] empty_world)) =
      [Str ''Exception: '', Str ''cannot open'', Endl,
       Str ''Can't load network by using the following files: '', Endl,
       Str ''prototxt:   '', Str ''bvlc_googlenet.prototxt'', Endl,
       Str ''caffemodel: '', Str ''other.caffemodel'', Endl,
       Str ''bvlc_googlenet.caffemodel can be downloaded here:'', Endl,
       Str ''http://dl.caffe.berkeleyvision.org/bvlc_googlenet.caffemodel'', Endl]"
    by (simp add: main_world doDnn_stops prepare_def load_model_def Let_def)
  ultimately show ?thesis
    by simp
qed

text \<open>
  Claim C1, as amended: the label file "synset_words.txt" is opened last, and for every
  run where it cannot be opened the run ends in one of three ways. When the model load
  fails with an empty handle or the image is unreadable, the program terminates with the
  failure status -1 and the label file is never opened. When the model loads and the
  image is read, the eleven set-input/forward cycles come first: if one of them throws,
  the run ends with that uncaught exception and the label file is never opened; if they
  all return, the process has loaded the model, built the tensor and made the eleven
  cycles before it opens the file, the message that names the file is the last thing the
  program writes to \<^verbatim>\<open>std::cerr\<close>, and the program terminates with the failure status -1.
\<close>

theorem label_file_missing_run:
  assumes "label_file_missing fs"
  shows "(model_load_fails L argv \<or> image_unreadable L argv \<longrightarrow>
            fst (main L fs argv w) = Exit (- 1) \<and>
            (\<exists>cs. calls (snd (main L fs argv w)) = calls w @ cs \<and>
                  Open_ifstream ''synset_words.txt'' \<notin> set cs)) \<and>
         (\<not> model_load_fails L argv \<and> \<not> image_unreadable L argv \<longrightarrow>
            (\<forall>what. forward_passes L argv = Inl what \<longrightarrow>
               fst (main L fs argv w) = Uncaught (Cv_exception what) \<and>
               (\<exists>cs. calls (snd (main L fs argv w)) = calls w @ cs \<and>
                     Open_ifstream ''synset_words.txt'' \<notin> set cs)) \<and>
            (\<forall>r. forward_passes L argv = Inr r \<longrightarrow>
               fst (main L fs argv w) = Exit (- 1) \<and>
               cerr (snd (main L fs argv w)) =
                 cerr (snd (prepare L argv w)) @
                 [Str ''File with classes labels not found: '', Str ''synset_words.txt'', Endl] \<and>
               calls (snd (main L fs argv w)) =
                 calls w @
                 [ReadNetFromCaffe (opt_proto (commandLineParser L argv))
                    (opt_model (commandLineParser L argv))] @
                 (if opt_opencl (commandLineParser L argv)
                  then [SetPreferableTarget DNN_TARGET_OPENCL] else []) @
                 [Imread (opt_image (commandLineParser L argv)),
                  BlobFromImage (imread L (opt_image (commandLineParser L argv))) 1 (224, 224)
                    (Scalar 104 117 123 0) False] @
                 concat (replicate 11 [SetInput (input_tensor L argv) ''data'', Forward ''prob'']) @
                 [Open_ifstream ''synset_words.txt'']))"
proof (intro conjI impI allI)
  assume fails: "model_load_fails L argv \<or> image_unreadable L argv"
  then show "fst (main L fs argv w) = Exit (- 1)"
    by (simp add: main_endings doDnn_stops)
  from fails show "\<exists>cs. calls (snd (main L fs argv w)) = calls w @ cs \<and>
      Open_ifstream ''synset_words.txt'' \<notin> set cs"
    by (auto simp: main_world doDnn_stops prepare_calls)
next
  fix what
  assume ok: "\<not> model_load_fails L argv \<and> \<not> image_unreadable L argv"
    and thrown: "forward_passes L argv = Inl what"
  obtain w1 where prep: "prepare L argv w = (Inr (loaded_net L argv, input_tensor L argv), w1)"
    using ok prepare_passes [of L argv w] by blast
  have inf: "fst (run_inference L (loaded_net L argv) (input_tensor L argv) w1) =
      Inl (Uncaught (Cv_exception what))"
    using doDnn_passes [OF prep] thrown by (simp add: uncaught_def)
  show "fst (main L fs argv w) = Uncaught (Cv_exception what)"
    by (simp add: main_endings doDnn_throws [OF prep inf])
  obtain cs where cs: "calls (snd (doDnn L fs argv w)) = calls w1 @ cs"
    "set cs \<subseteq> {SetInput (input_tensor L argv) ''data'', Forward ''prob''}"
    using doDnn_thrown_calls [OF prep inf, of fs] by blast
  have "calls w1 = calls (snd (prepare L argv w))"
    by (simp add: prep)
  then obtain ds where ds: "calls w1 = calls w @ ds" "Open_ifstream ''synset_words.txt'' \<notin> set ds"
    using ok by (auto simp: prepare_calls)
  have "calls (snd (main L fs argv w)) = calls w @ (ds @ cs)"
    using cs(1) ds(1) by (simp add: main_world)
  moreover have "Open_ifstream ''synset_words.txt'' \<notin> set (ds @ cs)"
    using cs(2) ds(2) by auto
  ultimately show "\<exists>cs. calls (snd (main L fs argv w)) = calls w @ cs \<and>
      Open_ifstream ''synset_words.txt'' \<notin> set cs"
    by blast
next
  fix r
  assume ok: "\<not> model_load_fails L argv \<and> \<not> image_unreadable L argv"
    and returned: "forward_passes L argv = Inr r"
  obtain prob net' where r: "r = (prob, net')"
    by (cases r)
  obtain w1 where prep: "prepare L argv w = (Inr (loaded_net L argv, input_tensor L argv), w1)"
    using ok prepare_passes [of L argv w] by blast
  have inf: "fst (run_inference L (loaded_net L argv) (input_tensor L argv) w1) =
      Inr (prob, net')"
    using doDnn_passes [OF prep] returned r by (simp add: uncaught_def)
  note run = doDnn_reports [OF prep inf, of fs]
  show "fst (main L fs argv w) = Exit (- 1)"
    by (simp add: main_endings run report_missing [OF assms])
  show "cerr (snd (main L fs argv w)) =
      cerr (snd (prepare L argv w)) @
      [Str ''File with classes labels not found: '', Str ''synset_words.txt'', Endl]"
    using assms run_inference_world [of L "loaded_net L argv" "input_tensor L argv" w1]
    by (simp add: main_world run report_cerr_world prep)
  have "calls w1 = calls (snd (prepare L argv w))"
    by (simp add: prep)
  then show "calls (snd (main L fs argv w)) =
      calls w @
      [ReadNetFromCaffe (opt_proto (commandLineParser L argv))
         (opt_model (commandLineParser L argv))] @
      (if opt_opencl (commandLineParser L argv)
       then [SetPreferableTarget DNN_TARGET_OPENCL] else []) @
      [Imread (opt_image (commandLineParser L argv)),
       BlobFromImage (imread L (opt_image (commandLineParser L argv))) 1 (224, 224)
         (Scalar 104 117 123 0) False] @
      concat (replicate 11 [SetInput (input_tensor L argv) ''data'', Forward ''prob'']) @
      [Open_ifstream ''synset_words.txt'']"
    using ok by (simp add: main_world doDnn_returned_calls [OF prep inf] prepare_calls)
qed

theorem label_file_missing_run_witness:
  "fst (main (demo_lib default_options) no_files [] empty_world) = Exit (- 1) \<and>
   cerr (snd (main (demo_lib default_options) no_files [] empty_world)) =
     [Str ''File with classes labels not found: '', Str ''synset_words.txt'', Endl] \<and>
   fst (main (throwing_lib default_options) no_files [] empty_world) =
     Uncaught (Cv_exception ''no layer prob'') \<and>
   (\<exists>cs. calls (snd (main (throwing_lib default_options) no_files [] empty_world)) = cs \<and>
         Open_ifstream ''synset_words.txt'' \<notin> set cs) \<and>
   fst (main (demo_lib other_model) no_files [] empty_world) = Exit (- 1) \<and>
   (\<exists>cs. calls (snd (main (demo_lib other_model) no_files [] empty_world)) = cs \<and>
         Open_ifstream ''synset_words.txt'' \<notin> set cs)"
proof -
  have "cerr (snd (prepare (demo_lib default_options) [] empty_world)) = []"
    by (simp add: demo_prepare)
  then show ?thesis
    using label_file_missing_run [of no_files "demo_lib default_options" "[]" empty_world]
      label_file_missing_run [of no_files "throwing_lib default_options" "[]" empty_world]
      label_file_missing_run [of no_files "demo_lib other_model" "[]" empty_world]
    by (simp add: demo_passes throwing_passes)
qed

text \<open>
  Claim C4 says that the exit status is -1 in exactly three failure cases, the missing
  label file among them. The label file is opened only after the forward passes, which
  stand outside the \<^verbatim>\<open>try\<close> block: in the run below the label file is missing and the
  network has no layer "prob", the first \<^verbatim>\<open>forward\<close> throws, nothing catches the
  exception, and the run ends with it and not with \<^verbatim>\<open>exit(-1)\<close>.
\<close>

theorem missing_label_file_counterexample:
  "label_file_missing no_files \<and>
   fst (main (throwing_lib default_options) no_files [] empty_world) =
     Uncaught (Cv_exception ''no layer prob'') \<and>
   fst (main (throwing_lib default_options) no_files [] empty_world) \<noteq> Exit (- 1)"
  by (simp add: main_endings doDnn_throws [OF throwing_prepare throwing_inference])

text \<open>
  Claim C4, as amended: the process exit status is 0 on success, and only then: \<^verbatim>\<open>doDnn\<close>
  returns and \<^verbatim>\<open>main\<close> returns 0, which is when the model has loaded, the image is read,
  the eleven set-input/forward cycles have returned, the label file is read and the class
  index lies within the label list. It is -1 in exactly three failure cases: the model
  load fails with an empty handle; the image is unreadable; or the model has loaded, the
  image is read, the eleven cycles have returned and the label file does not open. The
  program's own logic sets no other exit status. When the model has loaded and the image
  is read and one of the cycles throws, the run ends with that uncaught exception, in no
  exit status of the program's, whether the label file is there or not.
\<close>

theorem exit_status:
  "(fst (main L fs argv w) = Exit (- 1) \<longleftrightarrow>
      model_load_fails L argv \<or> image_unreadable L argv \<or>
      (\<exists>r. forward_passes L argv = Inr r) \<and> label_file_missing fs) \<and>
   (fst (main L fs argv w) = Exit 0 \<longleftrightarrow> fst (doDnn L fs argv w) = Inr ()) \<and>
   (fst (main L fs argv w) = Exit 0 \<longleftrightarrow>
      \<not> model_load_fails L argv \<and> \<not> image_unreadable L argv \<and>
      (\<exists>prob net' classNames.
         forward_passes L argv = Inr (prob, net') \<and>
         fst (readClassNames fs ''synset_words.txt'' w) = Inr classNames \<and>
         0 \<le> snd (minMaxLoc L prob) \<and> snd (minMaxLoc L prob) < int (length classNames))) \<and>
   (\<forall>status. fst (main L fs argv w) = Exit status \<longrightarrow> status = 0 \<or> status = - 1) \<and>
   (\<not> model_load_fails L argv \<and> \<not> image_unreadable L argv \<longrightarrow>
      (\<forall>what. forward_passes L argv = Inl what \<longrightarrow>
         fst (main L fs argv w) = Uncaught (Cv_exception what)))"
proof (cases "model_load_fails L argv \<or> image_unreadable L argv")
  case True
  then show ?thesis
    using doDnn_stops [OF True, of fs w] by (auto simp: main_endings)
next
  case False
  then obtain w1 where
    prep: "prepare L argv w = (Inr (loaded_net L argv, input_tensor L argv), w1)"
    using prepare_passes [of L argv w] by blast
  note inf = doDnn_passes [OF prep]
  show ?thesis
  proof (cases "forward_passes L argv")
    case (Inl what)
    then have "fst (run_inference L (loaded_net L argv) (input_tensor L argv) w1) =
        Inl (Uncaught (Cv_exception what))"
      using inf by (simp add: uncaught_def)
    then have "fst (doDnn L fs argv w) = Inl (Uncaught (Cv_exception what))"
      using doDnn_throws [OF prep, of "Uncaught (Cv_exception what)" fs] by simp
    then show ?thesis
      using False Inl by (simp add: main_endings)
  next
    case (Inr r)
    obtain prob net' where r: "r = (prob, net')"
      by (cases r)
    have "fst (run_inference L (loaded_net L argv) (input_tensor L argv) w1) = Inr (prob, net')"
      using inf Inr r by (simp add: uncaught_def)
    then have run: "doDnn L fs argv w =
        report L fs prob (snd (run_inference L (loaded_net L argv) (input_tensor L argv) w1))"
      by (rule doDnn_reports [OF prep])
    let ?w = "snd (run_inference L (loaded_net L argv) (input_tensor L argv) w1)"
    have exits: "fst (report L fs prob ?w) = Inl (Exit status) \<longleftrightarrow>
        label_file_missing fs \<and> status = - 1" for status
      by (rule report_exit_iff)
    have returns: "fst (report L fs prob ?w) = Inr () \<longleftrightarrow>
        (\<exists>classNames. fst (readClassNames fs ''synset_words.txt'' w) = Inr classNames \<and>
           0 \<le> snd (minMaxLoc L prob) \<and> snd (minMaxLoc L prob) < int (length classNames))"
      using report_returns_iff [of L fs prob ?w]
        readClassNames_fst_world [of fs "''synset_words.txt''" ?w w]
      by simp
    show ?thesis
    proof (cases "fst (report L fs prob ?w)")
      case (Inl e)
      then show ?thesis
        using False \<open>forward_passes L argv = Inr r\<close> r exits returns
        unfolding main_endings run by auto
    next
      case (Inr u)
      then show ?thesis
        using False \<open>forward_passes L argv = Inr r\<close> r exits [of "- 1"] returns
        unfolding main_endings run by auto
    qed
  qed
qed

theorem exit_status_witness:
  "fst (main (demo_lib default_options) no_files [] empty_world) = Exit (- 1) \<and>
   fst (main (demo_lib other_model) demo_fs [] empty_world) = Exit (- 1) \<and>
   fst (main (demo_lib other_image) demo_fs [] empty_world) = Exit (- 1) \<and>
   fst (main (demo_lib default_options) demo_fs [] empty_world) = Exit 0 \<and>
   fst (main (throwing_lib default_options) demo_fs [] empty_world) =
     Uncaught (Cv_exception ''no layer prob'')"
  using exit_status [of "demo_lib default_options" no_files "[]" empty_world]
    exit_status [of "demo_lib other_model" demo_fs "[]" empty_world]
    exit_status [of "demo_lib other_image" demo_fs "[]" empty_world]
    exit_status [of "demo_lib default_options" demo_fs "[]" empty_world]
    exit_status [of "throwing_lib default_options" demo_fs "[]" empty_world]
  by (simp add: demo_run_returns demo_passes throwing_passes)

section \<open>Loading the model\<close>

text \<open>
  Claim C5: during model loading, if the inference library throws, the exception message
  is printed; if the network handle is then empty, the two file paths and the hint URL
  are printed and the process terminates with the status -1; if the handle is not empty
  despite the caught exception, execution continues normally with that handle: the image
  is read next, and with a readable image \<^verbatim>\<open>doDnn\<close> goes on to the forward passes.
\<close>

theorem model_load_exception:
  assumes "readNetFromCaffe L modelTxt modelBin = Inl what"
  shows "(\<exists>rest. cerr (snd (load_model L modelTxt modelBin w)) =
                   cerr w @ [Str ''Exception: '', Str what, Endl] @ rest) \<and>
         (net_empty L (net_default L) \<longrightarrow>
            load_model L modelTxt modelBin w =
              (Inl (Exit (- 1)),
               put_cerr
                 [Str ''Can't load network by using the following files: '', Endl,
                  Str ''prototxt:   '', Str modelTxt, Endl,
                  Str ''caffemodel: '', Str modelBin, Endl,
                  Str ''bvlc_googlenet.caffemodel can be downloaded here:'', Endl,
                  Str ''http://dl.caffe.berkeleyvision.org/bvlc_googlenet.caffemodel'', Endl]
                 (put_cerr [Str ''Exception: '', Str what, Endl]
                    (log_call (ReadNetFromCaffe modelTxt modelBin) w)))) \<and>
         (\<not> net_empty L (net_default L) \<longrightarrow>
            load_model L modelTxt modelBin w =
              (Inr (net_default L),
               put_cerr [Str ''Exception: '', Str what, Endl]
                 (log_call (ReadNetFromCaffe modelTxt modelBin) w))) \<and>
         (\<not> net_empty L (net_default L) \<and>
          modelTxt = opt_proto (commandLineParser L argv) \<and>
          modelBin = opt_model (commandLineParser L argv) \<longrightarrow>
            \<not> model_load_fails L argv \<and>
            Imread (opt_image (commandLineParser L argv)) \<in> set (calls (snd (prepare L argv w))) \<and>
            (\<not> image_unreadable L argv \<longrightarrow>
               (\<exists>inputBlob w1.
                  prepare L argv w =
                    (Inr (if opt_opencl (commandLineParser L argv)
                          then setPreferableTarget L (net_default L) DNN_TARGET_OPENCL
                          else net_default L, inputBlob), w1))))"
proof (intro conjI impI)
  show "\<exists>rest. cerr (snd (load_model L modelTxt modelBin w)) =
      cerr w @ [Str ''Exception: '', Str what, Endl] @ rest"
    using assms by (cases "net_empty L (net_default L)") (simp_all add: load_model_def)
next
  assume "net_empty L (net_default L)"
  then show "load_model L modelTxt modelBin w =
      (Inl (Exit (- 1)),
       put_cerr
         [Str ''Can't load network by using the following files: '', Endl,
          Str ''prototxt:   '', Str modelTxt, Endl,
          Str ''caffemodel: '', Str modelBin, Endl,
          Str ''bvlc_googlenet.caffemodel can be downloaded here:'', Endl,
          Str ''http://dl.caffe.berkeleyvision.org/bvlc_googlenet.caffemodel'', Endl]
         (put_cerr [Str ''Exception: '', Str what, Endl]
            (log_call (ReadNetFromCaffe modelTxt modelBin) w)))"
    using assms by (simp add: load_model_empty)
next
  assume "\<not> net_empty L (net_default L)"
  then show "load_model L modelTxt modelBin w =
      (Inr (net_default L),
       put_cerr [Str ''Exception: '', Str what, Endl]
         (log_call (ReadNetFromCaffe modelTxt modelBin) w))"
    using assms by (simp add: load_model_tolerated)
next
  assume a: "\<not> net_empty L (net_default L) \<and>
      modelTxt = opt_proto (commandLineParser L argv) \<and>
      modelBin = opt_model (commandLineParser L argv)"
  then show ok: "\<not> model_load_fails L argv"
    using assms by (simp add: model_load_fails_def)
  then show "Imread (opt_image (commandLineParser L argv)) \<in> set (calls (snd (prepare L argv w)))"
    by (simp add: prepare_calls)
  assume img: "\<not> image_unreadable L argv"
  obtain net w1 where prep: "prepare L argv w =
      (Inr (net, blobFromImage L (imread L (opt_image (commandLineParser L argv))) 1 (224, 224)
                   (Scalar 104 117 123 0) False), w1)"
    using prepare_reaches_inference [OF ok img, of w] by blast
  have "net = (if opt_opencl (commandLineParser L argv)
      then setPreferableTarget L (net_default L) DNN_TARGET_OPENCL else net_default L)"
    using prepare_net [OF prep] a assms by simp
  with prep show "\<exists>inputBlob w1. prepare L argv w =
      (Inr (if opt_opencl (commandLineParser L argv)
            then setPreferableTarget L (net_default L) DNN_TARGET_OPENCL
            else net_default L, inputBlob), w1)"
    by simp
qed

theorem model_load_exception_witness:
  "fst (load_model (demo_lib other_model) ''bvlc_googlenet.prototxt'' ''other.caffemodel''
          empty_world) = Inl (Exit (- 1)) \<and>
   load_model (tolerant_lib other_model) ''bvlc_googlenet.prototxt'' ''other.caffemodel''
     empty_world =
     (Inr 2,
      put_cerr [Str ''Exception: '', Str ''cannot open'', Endl]
        (log_call (ReadNetFromCaffe ''bvlc_googlenet.prototxt'' ''other.caffemodel'')
           empty_world)) \<and>
   Imread ''space_shuttle.jpg'' \<in>
     set (calls (snd (prepare (tolerant_lib other_model) [] empty_world)))"
proof -
  have thrown: "readNetFromCaffe (demo_lib other_model) ''bvlc_googlenet.prototxt''
      ''other.caffemodel'' = Inl ''cannot open''"
    by simp
  have thrown': "readNetFromCaffe (tolerant_lib other_model) ''bvlc_googlenet.prototxt''
      ''other.caffemodel'' = Inl ''cannot open''"
    by simp
  have "fst (load_model (demo_lib other_model) ''bvlc_googlenet.prototxt'' ''other.caffemodel''
      empty_world) = Inl (Exit (- 1))"
    using model_load_exception [OF thrown, of empty_world "[]"] by simp
  moreover have "load_model (tolerant_lib other_model) ''bvlc_googlenet.prototxt''
      ''other.caffemodel'' empty_world =
      (Inr 2,
       put_cerr [Str ''Exception: '', Str ''cannot open'', Endl]
         (log_call (ReadNetFromCaffe ''bvlc_googlenet.prototxt'' ''other.caffemodel'')
            empty_world))"
    using model_load_exception [OF thrown', of empty_world "[]"] by simp
  moreover have "Imread ''space_shuttle.jpg'' \<in>
      set (calls (snd (prepare (tolerant_lib other_model) [] empty_world)))"
    using model_load_exception [OF thrown', of empty_world "[]"] by simp
  ultimately show ?thesis
    by blast
qed

section \<open>The input tensor and the forward passes\<close>

text \<open>
  Claim C9: the input tensor is always constructed with the fixed constants scale factor
  1.0, size 224 x 224, mean (104, 117, 123) and no red/blue swap, whatever the command
  line and whatever the parser makes of it: a run calls \<^verbatim>\<open>blobFromImage\<close> once with these
  arguments on the decoded image, or not at all when the model or the image failed. The
  tensor of such a call has batch 1, 3 channels, height 224 and width 224.
\<close>

theorem input_tensor_constants:
  "blob_calls (calls (snd (doDnn L fs argv w))) =
     blob_calls (calls w) @
     (if model_load_fails L argv \<or> image_unreadable L argv then []
      else [(imread L (opt_image (commandLineParser L argv)), 1, (224, 224),
             Scalar 104 117 123 0, False)]) \<and>
   (\<forall>net inputBlob w1.
      prepare L argv w = (Inr (net, inputBlob), w1) \<longrightarrow>
      inputBlob =
        blobFromImage L (imread L (opt_image (commandLineParser L argv))) 1 (224, 224)
          (Scalar 104 117 123 0) False) \<and>
   blob_shape (224, 224) = (1, 3, 224, 224)"
proof (intro conjI allI impI)
  show "blob_calls (calls (snd (doDnn L fs argv w))) =
      blob_calls (calls w) @
      (if model_load_fails L argv \<or> image_unreadable L argv then []
       else [(imread L (opt_image (commandLineParser L argv)), 1, (224, 224),
              Scalar 104 117 123 0, False)])"
    by (simp add: doDnn_blob_calls prepare_calls blob_calls_append)
next
  fix net inputBlob w1
  assume prep: "prepare L argv w = (Inr (net, inputBlob), w1)"
  show "inputBlob =
      blobFromImage L (imread L (opt_image (commandLineParser L argv))) 1 (224, 224)
        (Scalar 104 117 123 0) False"
    using prepare_blob [OF prep] by simp
next
  show "blob_shape (224, 224) = (1, 3, 224, 224)"
    by (simp add: blob_shape_def)
qed

theorem input_tensor_constants_witness:
  "blob_calls (calls (snd (doDnn (demo_lib default_options) demo_fs [] empty_world))) =
     [([7, 7, 7], 1, (224, 224), Scalar 104 117 123 0, False)] \<and>
   blob_calls (calls (snd (doDnn (demo_lib other_image) demo_fs [] empty_world))) = []"
  using input_tensor_constants [of "demo_lib default_options" demo_fs "[]" empty_world]
    input_tensor_constants [of "demo_lib other_image" demo_fs "[]" empty_world]
  by simp

text \<open>
  Claim C7: the inference runner executes the set-input/forward cycle once and then ten
  additional times on the identical input tensor, each cycle on the handle that the one
  before has left, and keeps only the last result, the output of the eleventh cycle; a
  cycle that throws ends the run there, with the exception. For a deterministic network
  the repetition has no functional effect: the result is the output of the first cycle,
  and the ending of \<^verbatim>\<open>doDnn\<close> and what it writes to stdout and stderr are those of the
  program that runs the cycle exactly once.
\<close>

theorem repetition_has_no_effect:
  "fst (run_inference L net inputBlob w) = uncaught (nth_cycle L inputBlob 10 net) \<and>
   (\<forall>r. fst (run_inference L net inputBlob w) = Inr r \<longrightarrow>
      calls (snd (run_inference L net inputBlob w)) =
        calls w @ concat (replicate 11 [SetInput inputBlob ''data'', Forward ''prob''])) \<and>
   (deterministic L \<longrightarrow>
      output_of (fst (run_inference L net inputBlob w)) =
        output_of (uncaught (cycle L inputBlob net)) \<and>
      fst (doDnn L fs argv w) = fst (doDnn_once L fs argv w) \<and>
      cout (snd (doDnn L fs argv w)) = cout (snd (doDnn_once L fs argv w)) \<and>
      cerr (snd (doDnn L fs argv w)) = cerr (snd (doDnn_once L fs argv w)))"
proof (intro conjI impI allI)
  show "fst (run_inference L net inputBlob w) = uncaught (nth_cycle L inputBlob 10 net)"
    by (rule run_inference_result)
next
  fix r
  assume "fst (run_inference L net inputBlob w) = Inr r"
  then show "calls (snd (run_inference L net inputBlob w)) =
      calls w @ concat (replicate 11 [SetInput inputBlob ''data'', Forward ''prob''])"
    by (rule run_inference_returned_calls)
next
  assume det: "deterministic L"
  show "output_of (fst (run_inference L net inputBlob w)) =
      output_of (uncaught (cycle L inputBlob net))"
    using det by (rule run_inference_deterministic)
  have same: "fst (doDnn L fs argv w) = fst (doDnn_once L fs argv w) \<and>
      cout (snd (doDnn L fs argv w)) = cout (snd (doDnn_once L fs argv w)) \<and>
      cerr (snd (doDnn L fs argv w)) = cerr (snd (doDnn_once L fs argv w))"
  proof (cases "model_load_fails L argv \<or> image_unreadable L argv")
    case True
    then show ?thesis
      by (simp add: doDnn_stops doDnn_once_stops)
  next
    case False
    then obtain net0 blob w1 where prep: "prepare L argv w = (Inr (net0, blob), w1)"
      using prepare_reaches_inference [of L argv w] by blast
    let ?w2 = "snd (run_inference L net0 blob w1)"
    let ?w2' = "snd (run_inference_once L net0 blob w1)"
    have streams: "cout ?w2 = cout ?w2'" "cerr ?w2 = cerr ?w2'"
      using run_inference_world [of L net0 blob w1] run_inference_once_world [of L net0 blob w1]
      by simp_all
    have out: "output_of (fst (run_inference L net0 blob w1)) =
        output_of (fst (run_inference_once L net0 blob w1))"
      using run_inference_deterministic [OF det, of net0 blob w1]
      by (simp add: run_inference_once_result)
    show ?thesis
    proof (cases "fst (run_inference_once L net0 blob w1)")
      case (Inl e)
      then have thrown: "fst (run_inference L net0 blob w1) = Inl e"
        using out by (auto simp: output_of_def split: sum.splits)
      show ?thesis
        unfolding doDnn_throws [OF prep thrown] doDnn_once_throws [OF prep Inl]
        using streams by simp
    next
      case (Inr r)
      obtain prob net1 where r: "r = (prob, net1)"
        by (cases r)
      obtain net2 where returned: "fst (run_inference L net0 blob w1) = Inr (prob, net2)"
        using out Inr r by (auto simp: output_of_def split: sum.splits)
      show ?thesis
        unfolding doDnn_reports [OF prep returned] doDnn_once_reports [OF prep Inr [unfolded r]]
        using report_fst_world [of L fs prob ?w2 ?w2']
          report_cout_world [OF streams(1), of L fs prob] streams(2)
        by (simp add: report_cerr_world)
    qed
  qed
  then show "fst (doDnn L fs argv w) = fst (doDnn_once L fs argv w)"
    and "cout (snd (doDnn L fs argv w)) = cout (snd (doDnn_once L fs argv w))"
    and "cerr (snd (doDnn L fs argv w)) = cerr (snd (doDnn_once L fs argv w))"
    by simp_all
qed

theorem repetition_has_no_effect_witness:
  "deterministic (demo_lib default_options) \<and>
   fst (run_inference (demo_lib default_options) 1 [7, 7, 7] empty_world) =
     Inr ([1 / 10, 7 / 10, 1 / 5], 1) \<and>
   calls (snd (run_inference (demo_lib default_options) 1 [7, 7, 7] empty_world)) =
     concat (replicate 11 [SetInput [7, 7, 7] ''data'', Forward ''prob'']) \<and>
   output_of (fst (run_inference (demo_lib default_options) 1 [7, 7, 7] empty_world)) =
     Inr [1 / 10, 7 / 10, 1 / 5] \<and>
   fst (doDnn (demo_lib default_options) demo_fs [] empty_world) =
     fst (doDnn_once (demo_lib default_options) demo_fs [] empty_world) \<and>
   cout (snd (doDnn (demo_lib default_options) demo_fs [] empty_world)) =
     cout (snd (doDnn_once (demo_lib default_options) demo_fs [] empty_world))"
  using repetition_has_no_effect
    [of "demo_lib default_options" 1 "[7, 7, 7]" empty_world demo_fs "[]"]
  by (simp add: demo_deterministic demo_cycle demo_nth_cycle uncaught_def output_of_def)

section \<open>The report\<close>

text \<open>
  Claim C8: given a valid image and a valid network (\<^verbatim>\<open>prepare\<close> returns the handle and
  the tensor, and the eleven cycles return), an output vector that is not empty and a
  label list at least as long, the program returns and prints exactly
  "Best class: #k 'label_k'" and then "Probability: p%", after the usage message when
  help was asked for: k is the arg-max index of the flattened output vector, found by the
  linear maximum scan, and p is the maximum value multiplied by 100.
\<close>

theorem best_class_report:
  assumes "prepare L argv w = (Inr (net, inputBlob), w1)"
    and "fst (run_inference L net inputBlob w1) = Inr (prob, net')"
    and "prob \<noteq> []"
    and "fst (readClassNames fs ''synset_words.txt'' w0) = Inr classNames"
    and "length prob \<le> length classNames"
  shows "\<exists>k. is_argmax prob k \<and> minMaxLoc L prob = (prob ! k, int k) \<and>
           fst (doDnn L fs argv w) = Inr () \<and>
           cout (snd (doDnn L fs argv w)) =
             cout w @ (if opt_help (commandLineParser L argv) then [Usage_message] else []) @
             [Str ''Best class: #'', Int_item (int k), Str [CHR '' '', CHR 0x27],
              Str (classNames ! k), Str [CHR 0x27], Endl,
              Str ''Probability: '', Dbl_item (prob ! k * 100), Str ''%'', Endl]"
proof -
  obtain classProb classId where loc: "minMaxLoc L prob = (classProb, classId)"
    by (cases "minMaxLoc L prob") auto
  then obtain k where k: "classId = int k" "is_argmax prob k" "classProb = prob ! k"
    using minMaxLoc_argmax [OF assms(3)] by blast
  then have len: "k < length classNames"
    using assms(5) by (simp add: is_argmax_def)
  have best: "minMaxLoc L prob = (prob ! k, int k)"
    using loc k by simp
  have "report L fs prob w' =
      (Inr (),
       put_cout
         [Str (classNames ! k), Str [CHR 0x27], Endl,
          Str ''Probability: '', Dbl_item (prob ! k * 100), Str ''%'', Endl]
         (put_cout [Str ''Best class: #'', Int_item (int k), Str [CHR '' '', CHR 0x27]]
            (log_call (Open_ifstream ''synset_words.txt'') w')))" for w'
    using report_prints [OF assms(4) best len] .
  moreover have "cout w1 =
      cout w @ (if opt_help (commandLineParser L argv) then [Usage_message] else [])"
    using prepare_cout [of L argv w] assms(1) by simp
  ultimately show ?thesis
    using k loc run_inference_world [of L net inputBlob w1]
    unfolding doDnn_reports [OF assms(1,2)]
    by (intro exI [of _ k]) simp
qed

theorem best_class_report_witness:
  "fst (doDnn (demo_lib default_options) demo_fs [] empty_world) = Inr () \<and>
   cout (snd (doDnn (demo_lib default_options) demo_fs [] empty_world)) =
     [Str ''Best class: #'', Int_item 1, Str [CHR '' '', CHR 0x27],
      Str ''space shuttle'', Str [CHR 0x27], Endl,
      Str ''Probability: '', Dbl_item 70, Str ''%'', Endl]"
proof -
  let ?L = "demo_lib default_options"
  let ?w = "empty_world :: (nat list, nat list, real) world"
  let ?prob = "[1 / 10, 7 / 10, 1 / 5] :: real list"
  let ?names = "[''tench'', ''space shuttle'', ''goldfish'']"
  have nonempty: "?prob \<noteq> []" and enough: "length ?prob \<le> length ?names"
    by simp_all
  have "\<exists>k. is_argmax ?prob k \<and> minMaxLoc ?L ?prob = (?prob ! k, int k) \<and>
      fst (doDnn ?L demo_fs [] ?w) = Inr () \<and>
      cout (snd (doDnn ?L demo_fs [] ?w)) =
        cout ?w @
        (if opt_help (commandLineParser ?L []) then [Usage_message] else []) @
        [Str ''Best class: #'', Int_item (int k), Str [CHR '' '', CHR 0x27],
         Str (?names ! k), Str [CHR 0x27], Endl,
         Str ''Probability: '', Dbl_item (?prob ! k * 100), Str ''%'', Endl]"
    using best_class_report
      [where L = ?L and argv = "[]" and w = ?w and fs = demo_fs
         and ?w0.0 = ?w and classNames = ?names,
        OF demo_prepare demo_inference nonempty demo_labels enough] .
  then obtain k where all: "is_argmax ?prob k \<and> minMaxLoc ?L ?prob = (?prob ! k, int k) \<and>
      fst (doDnn ?L demo_fs [] ?w) = Inr () \<and>
      cout (snd (doDnn ?L demo_fs [] ?w)) =
        cout ?w @
        (if opt_help (commandLineParser ?L []) then [Usage_message] else []) @
        [Str ''Best class: #'', Int_item (int k), Str [CHR '' '', CHR 0x27],
         Str (?names ! k), Str [CHR 0x27], Endl,
         Str ''Probability: '', Dbl_item (?prob ! k * 100), Str ''%'', Endl]" ..
  note rest = conjunct2 [OF all]
  have best: "minMaxLoc ?L ?prob = (?prob ! k, int k)"
    using rest by (rule conjunct1)
  have ret: "fst (doDnn ?L demo_fs [] ?w) = Inr ()"
    using conjunct2 [OF rest] by (rule conjunct1)
  have out: "cout (snd (doDnn ?L demo_fs [] ?w)) =
      cout ?w @ (if opt_help (commandLineParser ?L []) then [Usage_message] else []) @
      [Str ''Best class: #'', Int_item (int k), Str [CHR '' '', CHR 0x27],
       Str (?names ! k), Str [CHR 0x27], Endl,
       Str ''Probability: '', Dbl_item (?prob ! k * 100), Str ''%'', Endl]"
    using conjunct2 [OF rest] by (rule conjunct2)
  have "k = 1"
    using best by (simp add: demo_minMaxLoc)
  with ret out show ?thesis
    by simp
qed




end
